theory Spec2Isabelle
  imports Complex_Main "HOL-Library.Log_Nat"
begin

section \<open>Infinite streaming speech transcription: the session-bridging logic\<close>

text \<open>
  A shallow embedding of \<^verbatim>\<open>transcribe_streaming_infinite.py\<close>, read as Python 3:
  \<^verbatim>\<open>/\<close> is true division, and \<^verbatim>\<open>round\<close> rounds half to even and returns the
  integer that \<^verbatim>\<open>range\<close> in line 134 needs.

  Conventions of the embedding.
  \<^item> Python integers are \<open>int\<close>. A Python float is the rational number it stands
    for. The arithmetic of the replay step (lines 120 to 132) is that of IEEE doubles:
    every conversion, quotient and product is rounded to 53 significant bits, to the
    nearest value with ties to the even one (\<open>fl\<close> below). The exponent of a double is
    not bounded in the model; no quantity of the replay step leaves the range of normal
    doubles while the history holds fewer than \<open>2 ^ 63\<close> chunks and the end times are
    below \<open>2 ^ 63\<close> seconds.
  \<^item> The quotient \<^verbatim>\<open>result_nanos / 1000000\<close> and the sum of line 202 are computed
    exactly; they agree with the doubles of the program for end times below
    \<open>2 ^ 34\<close> ms.
  \<^item> The fields of \<^verbatim>\<open>ResumableMicrophoneStream\<close> keep their names without the leading
    underscore. The device fields (\<^verbatim>\<open>_rate\<close>, \<^verbatim>\<open>_chunk_size\<close>, \<^verbatim>\<open>_num_channels\<close>)
    are never read by the bridging logic and are left out; the queue \<^verbatim>\<open>_buff\<close> is an
    input of each iteration of the chunk producer.
  \<^item> A chunk is a byte string; the end-of-stream sentinel \<^verbatim>\<open>None\<close> is \<open>None\<close>.
  \<^item> Writes to the terminal are collected in a list of \<open>printed\<close> events; colour
    escapes are left out.
  \<^item> Transcripts are ASCII strings: the word characters of the stop-keyword pattern
    are the ASCII letters, digits and the underscore, and case is folded on ASCII.
  \<^item> A raised exception is the \<open>Inl\<close> branch of a sum.
\<close>

subsection \<open>Constants\<close>

definition STREAMING_LIMIT :: int where
  "STREAMING_LIMIT = 10000"

definition WORKAROUND_WINDOW :: int where
  "WORKAROUND_WINDOW = 200"


subsection \<open>Data\<close>

type_synonym chunk = string

record stream =
  closed :: bool
  start_time :: int
  restart_counter :: int
  audio_input :: "chunk option list"
  last_audio_input :: "chunk option list"
  result_end_time :: int
  is_final_end_time :: int
  final_request_end_time :: int
  bridging_offset :: int
  last_transcript_was_final :: bool
  new_stream :: bool

text \<open>The state built by \<^verbatim>\<open>__init__\<close> and opened by \<^verbatim>\<open>__enter__\<close>, at time \<open>now\<close>.\<close>

definition init :: "int \<Rightarrow> stream" where
  "init now =
     \<lparr> closed = False, start_time = now, restart_counter = 0, audio_input = [],
       last_audio_input = [], result_end_time = 0, is_final_end_time = 0,
       final_request_end_time = 0, bridging_offset = 0,
       last_transcript_was_final = False, new_stream = True \<rparr>"

text \<open>The messages of the recognition backend, reduced to the fields the program reads.\<close>

record duration =
  seconds :: int
  nanos :: int

record alternative =
  transcript :: string

record result =
  alternatives :: "alternative list"
  is_final :: bool
  end_time :: duration  \<comment> \<open>the field \<^verbatim>\<open>result_end_time\<close> of a result\<close>

record response =
  results :: "result list"

datatype printed =
    Final int string      \<comment> \<open>\<^verbatim>\<open>str(corrected_time) + ': ' + transcript + '\n'\<close>\<close>
  | Interim int string    \<comment> \<open>\<^verbatim>\<open>str(corrected_time) + ': ' + transcript + '\r'\<close>\<close>
  | Exiting               \<comment> \<open>\<^verbatim>\<open>'Exiting...\n'\<close>\<close>
  | NewRequest int        \<comment> \<open>\<^verbatim>\<open>str(...) + ': NEW REQUEST\n'\<close>\<close>
  | Newline

datatype error = ZeroDivisionError | IndexError | TypeError

subsection \<open>Python arithmetic\<close>

text \<open>\<^verbatim>\<open>int(x)\<close> truncates towards zero.\<close>

definition py_int :: "rat \<Rightarrow> int" where
  "py_int x = (if 0 \<le> x then \<lfloor>x\<rfloor> else \<lceil>x\<rceil>)"

text \<open>\<^verbatim>\<open>round(x)\<close> with one argument: the nearest integer, a tie going to the even one.\<close>

definition py_round :: "rat \<Rightarrow> int" where
  "py_round x =
     (let f = \<lfloor>x\<rfloor>; d = x - of_int f
      in if d < 1 / 2 then f
         else if 1 / 2 < d then f + 1
         else if even f then f else f + 1)"

text \<open>
  The largest \<open>e\<close> with \<open>2 ^ e \<le> x\<close>, for a positive \<open>x\<close>: the difference of the
  bit lengths of numerator and denominator, or one less.
\<close>

definition ilog2 :: "rat \<Rightarrow> int" where
  "ilog2 x =
     (let d = bitlen (fst (quotient_of x)) - bitlen (snd (quotient_of x))
      in if 2 powi d \<le> x then d else d - 1)"

text \<open>
  Rounding to the nearest double: the value is scaled to an integer of 53 bits, the
  integer is rounded with ties to the even one, and scaled back.
\<close>

definition fl :: "rat \<Rightarrow> rat" where
  "fl x =
     (if x = 0 then 0
      else (let e = ilog2 \<bar>x\<bar> - 52 in of_int (py_round (x / 2 powi e)) * 2 powi e))"

text \<open>The conversion of an integer operand to a float.\<close>

definition py_float :: "int \<Rightarrow> rat" where
  "py_float n = fl (of_int n)"

text \<open>
  \<^verbatim>\<open>a / b\<close>: the quotient rounded to a double; a zero divisor raises. For two
  integers Python rounds the exact quotient, for an integer and a float it converts the
  integer first (\<open>py_float\<close>).
\<close>

definition py_truediv :: "rat \<Rightarrow> rat \<Rightarrow> error + rat" where
  "py_truediv a b = (if b = 0 then Inl ZeroDivisionError else Inr (fl (a / b)))"

text \<open>\<^verbatim>\<open>a * b\<close> on floats.\<close>

definition py_mul :: "rat \<Rightarrow> rat \<Rightarrow> rat" where
  "py_mul a b = fl (a * b)"

text \<open>The largest relative error of one rounding.\<close>

definition unit_roundoff :: rat where
  "unit_roundoff = 1 / 2 ^ 53"


subsection \<open>The stop keyword\<close>

text \<open>
  \<^verbatim>\<open>re.search(r'\b(exit|quit)\b', transcript, re.I)\<close>: somewhere in the transcript
  stands \<^verbatim>\<open>exit\<close> or \<^verbatim>\<open>quit\<close> in any mix of cases, with no word character directly
  before it and none directly after it.
\<close>

definition is_word_char :: "char \<Rightarrow> bool" where
  "is_word_char c =
     (let n = (of_char c :: nat)
      in (48 \<le> n \<and> n \<le> 57) \<or> (65 \<le> n \<and> n \<le> 90) \<or> n = 95 \<or> (97 \<le> n \<and> n \<le> 122))"

definition lower_char :: "char \<Rightarrow> char" where
  "lower_char c =
     (let n = (of_char c :: nat) in if 65 \<le> n \<and> n \<le> 90 then char_of (n + 32) else c)"

text \<open>The keyword starts the string and a word boundary follows it.\<close>

definition keyword_here :: "string \<Rightarrow> bool" where
  "keyword_here s =
     ((map lower_char (take 4 s) = ''exit'' \<or> map lower_char (take 4 s) = ''quit'') \<and>
      (case drop 4 s of [] \<Rightarrow> True | c # _ \<Rightarrow> \<not> is_word_char c))"

text \<open>The scan of \<^verbatim>\<open>re.search\<close>; \<open>prev\<close> tells whether a word character stands before.\<close>

fun search_keyword :: "bool \<Rightarrow> string \<Rightarrow> bool" where
  "search_keyword prev [] = False"
| "search_keyword prev (c # cs) =
     (if \<not> prev \<and> keyword_here (c # cs) then True
      else search_keyword (is_word_char c) cs)"

definition stop_keyword :: "string \<Rightarrow> bool" where
  "stop_keyword s = search_keyword False s"

subsection \<open>The result loop\<close>

text \<open>The in-session end time of a result in milliseconds (lines 193 to 202).\<close>

definition end_time_ms :: "duration \<Rightarrow> int" where
  "end_time_ms d =
     (let result_seconds = (if seconds d \<noteq> 0 then seconds d else 0);
          result_nanos = (if nanos d \<noteq> 0 then nanos d else 0)
      in py_int (of_int (result_seconds * 1000) + of_int result_nanos / 1000000))"

text \<open>
  One iteration of the \<^verbatim>\<open>for\<close> loop of \<^verbatim>\<open>listen_print_loop\<close>: the new state, what
  was written, and whether the loop was left by \<^verbatim>\<open>break\<close>.
\<close>

definition handle_response :: "response \<Rightarrow> stream \<Rightarrow> stream \<times> printed list \<times> bool" where
  "handle_response resp s =
     (case results resp of
        [] \<Rightarrow> (s, [], False)
      | res # _ \<Rightarrow>
          (case alternatives res of
             [] \<Rightarrow> (s, [], False)
           | alt # _ \<Rightarrow>
               (let s1 = s\<lparr>result_end_time := end_time_ms (end_time res)\<rparr>;
                    corrected_time =
                      result_end_time s1 - bridging_offset s1
                        + STREAMING_LIMIT * restart_counter s1
                in if is_final res then
                     (if result_end_time s1 < STREAMING_LIMIT - WORKAROUND_WINDOW then
                        (let s2 = s1\<lparr>is_final_end_time := result_end_time s1,
                                      last_transcript_was_final := True\<rparr>
                         in if stop_keyword (transcript alt)
                            then (s2\<lparr>closed := True\<rparr>,
                                  [Final corrected_time (transcript alt), Exiting], True)
                            else (s2, [Final corrected_time (transcript alt)], False))
                      else (s1, [], False))
                   else (s1\<lparr>last_transcript_was_final := False\<rparr>,
                         [Interim corrected_time (transcript alt)], False))))"

text \<open>
  \<^verbatim>\<open>listen_print_loop\<close>: the state, everything written, and the responses left
  unread in the response iterator when the loop ends.
\<close>

fun listen_print_loop :: "response list \<Rightarrow> stream \<Rightarrow> stream \<times> printed list \<times> response list" where
  "listen_print_loop [] s = (s, [], [])"
| "listen_print_loop (resp # rest) s =
     (case handle_response resp s of
        (s', out, True) \<Rightarrow> (s', out, rest)
      | (s', out, False) \<Rightarrow>
          (case listen_print_loop rest s' of
             (s'', out', rest') \<Rightarrow> (s'', out @ out', rest')))"

subsection \<open>The chunk producer\<close>

text \<open>\<^verbatim>\<open>xs[i]\<close>: a negative index counts from the end, an index out of range raises.\<close>

definition py_getitem :: "'a list \<Rightarrow> int \<Rightarrow> error + 'a" where
  "py_getitem xs i =
     (if 0 \<le> i \<and> i < int (length xs) then Inr (xs ! nat i)
      else if i < 0 \<and> - int (length xs) \<le> i then Inr (xs ! nat (int (length xs) + i))
      else Inl IndexError)"

text \<open>
  The loop of lines 134 and 135, \<^verbatim>\<open>for i in range(chunksFromMS, len(...)): data.append(...[i])\<close>,
  over the indices still to visit.
\<close>

fun append_chunks :: "'a list \<Rightarrow> int list \<Rightarrow> 'a list \<Rightarrow> error + 'a list" where
  "append_chunks xs [] data = Inr data"
| "append_chunks xs (i # js) data =
     (case py_getitem xs i of
        Inl e \<Rightarrow> Inl e
      | Inr x \<Rightarrow> append_chunks xs js (data @ [x]))"

text \<open>The two clamping statements of lines 124 to 128.\<close>

definition clamp_bridging :: "stream \<Rightarrow> stream" where
  "clamp_bridging s =
     (let s1 = (if bridging_offset s < 0 then s\<lparr>bridging_offset := 0\<rparr> else s)
      in if bridging_offset s1 > final_request_end_time s1
         then s1\<lparr>bridging_offset := final_request_end_time s1\<rparr> else s1)"

text \<open>
  Lines 122 to 135, for a given \<^verbatim>\<open>chunkTime\<close>: the new state and the chunks put into
  \<^verbatim>\<open>data\<close>.
\<close>

definition bridge :: "rat \<Rightarrow> stream \<Rightarrow> error + (stream \<times> chunk option list)" where
  "bridge chunkTime s =
     (if chunkTime \<noteq> 0 then
        (let s2 = clamp_bridging s
         in case py_truediv (py_float (final_request_end_time s2 - bridging_offset s2))
                   chunkTime of
              Inl e \<Rightarrow> Inl e
            | Inr q \<Rightarrow>
                (let chunksFromMS = py_round q;
                     s3 = s2\<lparr>bridging_offset :=
                             py_round
                               (py_mul (py_float (int (length (last_audio_input s2))
                                                  - chunksFromMS))
                                  chunkTime)\<rparr>
                 in case append_chunks (last_audio_input s3)
                           [chunksFromMS .. int (length (last_audio_input s3)) - 1] [] of
                      Inl e \<Rightarrow> Inl e
                    | Inr data \<Rightarrow> Inr (s3, data)))
      else Inr (s, []))"

text \<open>Lines 118 to 137: the replay step at the start of an iteration of the producer.\<close>

definition replay :: "stream \<Rightarrow> error + (stream \<times> chunk option list)" where
  "replay s =
     (if new_stream s \<and> length (last_audio_input s) \<noteq> 0 then
        (case py_truediv (of_int STREAMING_LIMIT) (of_nat (length (last_audio_input s))) of
           Inl e \<Rightarrow> Inl e
         | Inr chunkTime \<Rightarrow>
             (case bridge chunkTime s of
                Inl e \<Rightarrow> Inl e
              | Inr (s', data) \<Rightarrow> Inr (s'\<lparr>new_stream := False\<rparr>, data)))
      else Inr (s, []))"

text \<open>
  What one iteration of the producer's \<^verbatim>\<open>while\<close> loop reads from outside: the clock
  (read in line 114 and again in line 115), the chunk the blocking \<^verbatim>\<open>get\<close> returns and
  the chunks the non-blocking \<^verbatim>\<open>get\<close> returns before the queue is empty.
\<close>

record tick =
  now_check :: int
  now_reset :: int
  got :: "chunk option"
  buffered :: "chunk option list"

text \<open>
  The inner loop of lines 149 to 159; \<open>None\<close> as the data says that the producer returned
  at the sentinel without yielding.
\<close>

fun drain :: "chunk option list \<Rightarrow> chunk option list \<Rightarrow> stream
    \<Rightarrow> stream \<times> chunk option list option" where
  "drain [] data s = (s, Some data)"
| "drain (None # q) data s = (s, None)"
| "drain (Some c # q) data s =
     drain q (data @ [Some c]) (s\<lparr>audio_input := audio_input s @ [Some c]\<rparr>)"

text \<open>\<^verbatim>\<open>b''.join(data)\<close> raises when an element is not a byte string.\<close>

fun py_join :: "chunk option list \<Rightarrow> error + string" where
  "py_join [] = Inr []"
| "py_join (None # xs) = Inl TypeError"
| "py_join (Some c # xs) = (case py_join xs of Inl e \<Rightarrow> Inl e | Inr r \<Rightarrow> Inr (c @ r))"

datatype produced = Yield string | Return

text \<open>One iteration of the \<^verbatim>\<open>while\<close> loop of \<^verbatim>\<open>generator\<close> (lines 111 to 161).\<close>

definition generator_iter :: "tick \<Rightarrow> stream \<Rightarrow> error + (stream \<times> produced)" where
  "generator_iter t s =
     (if closed s then Inr (s, Return)
      else if now_check t - start_time s > STREAMING_LIMIT
      then Inr (s\<lparr>start_time := now_reset t\<rparr>, Return)
      else
        (case replay s of
           Inl e \<Rightarrow> Inl e
         | Inr (s1, data) \<Rightarrow>
             (let s2 = s1\<lparr>audio_input := audio_input s1 @ [got t]\<rparr>
              in case got t of
                   None \<Rightarrow> Inr (s2, Return)
                 | Some c \<Rightarrow>
                     (case drain (buffered t) (data @ [Some c]) s2 of
                        (s3, None) \<Rightarrow> Inr (s3, Return)
                      | (s3, Some data') \<Rightarrow>
                          (case py_join data' of
                             Inl e \<Rightarrow> Inl e
                           | Inr bytes \<Rightarrow> Inr (s3, Yield bytes))))))"

text \<open>
  The producer as the backend client drives it: one tick for each request it pulls; the
  list of ticks ends where the client stops pulling.
\<close>

fun generator :: "tick list \<Rightarrow> stream \<Rightarrow> error + (stream \<times> string list)" where
  "generator [] s = Inr (s, [])"
| "generator (t # ts) s =
     (case generator_iter t s of
        Inl e \<Rightarrow> Inl e
      | Inr (s', Return) \<Rightarrow> Inr (s', [])
      | Inr (s', Yield bytes) \<Rightarrow>
          (case generator ts s' of
             Inl e \<Rightarrow> Inl e
           | Inr (s'', requests) \<Rightarrow> Inr (s'', bytes # requests)))"

subsection \<open>The restart loop\<close>

text \<open>Lines 274 to 284 of \<^verbatim>\<open>main\<close>, after the result loop has ended.\<close>

definition end_of_session :: "stream \<Rightarrow> stream \<times> printed list" where
  "end_of_session s =
     (let s1 = (if result_end_time s > 0
                then s\<lparr>final_request_end_time := is_final_end_time s\<rparr> else s);
          s2 = s1\<lparr>result_end_time := 0\<rparr>;
          s3 = s2\<lparr>last_audio_input := []\<rparr>;
          s4 = s3\<lparr>last_audio_input := audio_input s3\<rparr>;
          s5 = s4\<lparr>audio_input := []\<rparr>;
          s6 = s5\<lparr>restart_counter := restart_counter s5 + 1\<rparr>
      in (s6\<lparr>new_stream := True\<rparr>,
          if \<not> last_transcript_was_final s6 then [Newline] else []))"

text \<open>
  What one sub-session reads from outside: the ticks of its producer and the responses of
  the backend. The producer runs in the client's thread while the result loop runs; the two
  share the state, and the result loop writes no field the producer reads but \<^verbatim>\<open>_closed\<close>,
  while the producer's replay step runs before the first request is sent. The embedding
  therefore runs the producer first and the result loop after it.
\<close>

record session =
  ticks :: "tick list"
  responses :: "response list"

text \<open>One pass through the body of the \<^verbatim>\<open>while\<close> loop of \<^verbatim>\<open>main\<close> (lines 255 to 284).\<close>

definition sub_session :: "session \<Rightarrow> stream \<Rightarrow> error + (stream \<times> printed list)" where
  "sub_session i s =
     (let s0 = s\<lparr>audio_input := []\<rparr>
      in case generator (ticks i) s0 of
           Inl e \<Rightarrow> Inl e
         | Inr (s1, requests) \<Rightarrow>
             (case listen_print_loop (responses i) s1 of
                (s2, out, unread) \<Rightarrow>
                  (case end_of_session s2 of
                     (s3, out') \<Rightarrow>
                       Inr (s3, NewRequest (STREAMING_LIMIT * restart_counter s) # out @ out'))))"

text \<open>
  The \<^verbatim>\<open>while not stream._closed\<close> loop of \<^verbatim>\<open>main\<close> over the sub-sessions of a run;
  a finite list describes the run up to its last sub-session observed. The result holds
  the sub-sessions that were never started.
\<close>

fun main_loop :: "session list \<Rightarrow> stream \<Rightarrow> error + (stream \<times> printed list \<times> session list)" where
  "main_loop [] s = Inr (s, [], [])"
| "main_loop (i # rest) s =
     (if closed s then Inr (s, [], i # rest)
      else
        (case sub_session i s of
           Inl e \<Rightarrow> Inl e
         | Inr (s', out) \<Rightarrow>
             (case main_loop rest s' of
                Inl e \<Rightarrow> Inl e
              | Inr (s'', out', unstarted) \<Rightarrow> Inr (s'', out @ out', unstarted))))"

subsection \<open>The replay computation as the specification words it\<close>

text \<open>
  The quantities of the specification's replay computation, written from its sentences:
  the duration of a chunk, the clamping of a value into an interval, the index the replay
  starts from and the bridging offset handed to the next restart. The quotient and the
  product are Python floats, as in the program the sentences were written from. They are
  compared with \<open>replay\<close> below.
\<close>

definition chunkDurationMs :: "nat \<Rightarrow> rat" where
  "chunkDurationMs count = of_int STREAMING_LIMIT / of_nat count"

definition clamp_into :: "int \<Rightarrow> int \<Rightarrow> int \<Rightarrow> int" where
  "clamp_into lo hi x = (if x < lo then lo else if hi < x then hi else x)"

text \<open>The double that the quotient yields in the program.\<close>

definition chunkDurationMs_double :: "nat \<Rightarrow> rat" where
  "chunkDurationMs_double count = fl (chunkDurationMs count)"

definition chunksFromIndex :: "nat \<Rightarrow> int \<Rightarrow> int \<Rightarrow> int" where
  "chunksFromIndex count f b =
     py_round (fl (py_float (f - clamp_into 0 f b) / chunkDurationMs_double count))"

definition next_bridging_offset :: "nat \<Rightarrow> int \<Rightarrow> int \<Rightarrow> int" where
  "next_bridging_offset count f b =
     py_round (fl (py_float (int count - chunksFromIndex count f b)
                   * chunkDurationMs_double count))"

subsection \<open>Observations on a run\<close>

text \<open>
  The result loop reads a final result from this response: its first result carries an
  alternative and is final.
\<close>

definition observes_final :: "response \<Rightarrow> bool" where
  "observes_final resp =
     (case results resp of
        [] \<Rightarrow> False
      | res # _ \<Rightarrow> alternatives res \<noteq> [] \<and> is_final res)"

text \<open>The global end times of the final transcripts among what was written, in order.\<close>

fun final_times :: "printed list \<Rightarrow> int list" where
  "final_times [] = []"
| "final_times (Final g tr # ps) = g # final_times ps"
| "final_times (p # ps) = final_times ps"

text \<open>
  The in-session end times of the final results the result loop writes as final
  transcripts, in order: those before the workaround window, up to the first that carries a
  stop keyword.
\<close>

fun final_end_times :: "response list \<Rightarrow> int list" where
  "final_end_times [] = []"
| "final_end_times (resp # rest) =
     (case results resp of
        [] \<Rightarrow> final_end_times rest
      | res # _ \<Rightarrow>
          (case alternatives res of
             [] \<Rightarrow> final_end_times rest
           | alt # _ \<Rightarrow>
               if is_final res
                  \<and> end_time_ms (end_time res) < STREAMING_LIMIT - WORKAROUND_WINDOW
               then end_time_ms (end_time res)
                      # (if stop_keyword (transcript alt) then [] else final_end_times rest)
               else final_end_times rest))"

text \<open>Bounds that hold in every state a run reaches (shown below).\<close>

definition bridging_inv :: "stream \<Rightarrow> bool" where
  "bridging_inv s \<longleftrightarrow>
     0 \<le> bridging_offset s \<and>
     final_request_end_time s < STREAMING_LIMIT - WORKAROUND_WINDOW \<and>
     is_final_end_time s < STREAMING_LIMIT - WORKAROUND_WINDOW"


subsection \<open>Example inputs\<close>

text \<open>A response with one result that carries one alternative.\<close>

definition single_result :: "bool \<Rightarrow> int \<Rightarrow> int \<Rightarrow> string \<Rightarrow> response" where
  "single_result fin secs ns tr =
     \<lparr>results = [\<lparr>alternatives = [\<lparr>transcript = tr\<rparr>], is_final = fin,
                  end_time = \<lparr>seconds = secs, nanos = ns\<rparr>\<rparr>]\<rparr>"

text \<open>A history of \<open>n\<close> one-byte chunks that differ from each other.\<close>

definition numbered_chunks :: "nat \<Rightarrow> chunk option list" where
  "numbered_chunks n = map (\<lambda>i. Some [char_of i]) [0..<n]"

text \<open>An iteration of the producer that finds one chunk in the queue at time \<open>now\<close>.\<close>

definition one_tick :: "int \<Rightarrow> chunk \<Rightarrow> tick" where
  "one_tick now c = \<lparr>now_check = now, now_reset = now, got = Some c, buffered = []\<rparr>"

text \<open>The iterations for \<open>n\<close> chunks, one every 100 ms from time 0.\<close>

definition numbered_ticks :: "nat \<Rightarrow> tick list" where
  "numbered_ticks n = map (\<lambda>i. one_tick (int i * 100) [char_of i]) [0..<n]"

section \<open>Properties of the result loop\<close>

subsection \<open>Auxiliary facts\<close>

lemma floor_ms:
  "\<lfloor>of_int (a * 1000) + of_int n / (1000000 :: rat)\<rfloor> = a * 1000 + n div 1000000"
proof -
  have "\<lfloor>of_int n / (of_int 1000000 :: rat)\<rfloor> = n div 1000000"
    by (rule floor_divide_of_int_eq)
  then have "\<lfloor>of_int n / (1000000 :: rat)\<rfloor> = n div 1000000"
    by simp
  then show ?thesis
    using int_add_floor [of "a * 1000" "of_int n / (1000000 :: rat)"] by simp
qed

lemma end_time_ms_nonneg:
  assumes "0 \<le> seconds d" "0 \<le> nanos d"
  shows "end_time_ms d = seconds d * 1000 + nanos d div 1000000"
proof -
  have "0 \<le> (of_int (seconds d * 1000) + of_int (nanos d) / 1000000 :: rat)"
    using assms by simp
  then show ?thesis
    by (simp only: end_time_ms_def py_int_def Let_def if_True floor_ms) simp
qed

text \<open>The loop body on a response whose first result carries an alternative.\<close>

lemma handle_response_alt:
  assumes "results resp = res # others" "alternatives res = alt # alts"
  shows "handle_response resp s =
     (let t = end_time_ms (end_time res);
          g = t - bridging_offset s + STREAMING_LIMIT * restart_counter s;
          s1 = s\<lparr>result_end_time := t\<rparr>
      in if is_final res then
           (if t < STREAMING_LIMIT - WORKAROUND_WINDOW then
              (if stop_keyword (transcript alt)
               then (s1\<lparr>is_final_end_time := t, last_transcript_was_final := True,
                         closed := True\<rparr>,
                     [Final g (transcript alt), Exiting], True)
               else (s1\<lparr>is_final_end_time := t, last_transcript_was_final := True\<rparr>,
                     [Final g (transcript alt)], False))
            else (s1, [], False))
         else (s1\<lparr>last_transcript_was_final := False\<rparr>,
               [Interim g (transcript alt)], False))"
  using assms by (simp add: handle_response_def Let_def)

text \<open>The fields the result loop never writes.\<close>

lemma handle_response_frame:
  "bridging_offset (fst (handle_response resp s)) = bridging_offset s"
  "restart_counter (fst (handle_response resp s)) = restart_counter s"
  "final_request_end_time (fst (handle_response resp s)) = final_request_end_time s"
  "audio_input (fst (handle_response resp s)) = audio_input s"
  "last_audio_input (fst (handle_response resp s)) = last_audio_input s"
  "start_time (fst (handle_response resp s)) = start_time s"
  "new_stream (fst (handle_response resp s)) = new_stream s"
  by (simp_all add: handle_response_def Let_def split: list.splits)

lemma listen_print_loop_frame:
  "bridging_offset (fst (listen_print_loop rs s)) = bridging_offset s \<and>
   restart_counter (fst (listen_print_loop rs s)) = restart_counter s \<and>
   final_request_end_time (fst (listen_print_loop rs s)) = final_request_end_time s \<and>
   audio_input (fst (listen_print_loop rs s)) = audio_input s \<and>
   last_audio_input (fst (listen_print_loop rs s)) = last_audio_input s \<and>
   start_time (fst (listen_print_loop rs s)) = start_time s \<and>
   new_stream (fst (listen_print_loop rs s)) = new_stream s"
proof (induction rs arbitrary: s)
  case Nil
  show ?case by simp
next
  case (Cons resp rest)
  obtain s' out b where h: "handle_response resp s = (s', out, b)"
    by (cases "handle_response resp s") auto
  have f: "bridging_offset s' = bridging_offset s" "restart_counter s' = restart_counter s"
    "final_request_end_time s' = final_request_end_time s" "audio_input s' = audio_input s"
    "last_audio_input s' = last_audio_input s" "start_time s' = start_time s"
    "new_stream s' = new_stream s"
    using handle_response_frame [of resp s] by (simp_all add: h)
  show ?case
  proof (cases b)
    case True
    then show ?thesis by (simp add: h f)
  next
    case False
    then show ?thesis using Cons.IH [of s'] by (auto simp: h f split: prod.splits)
  qed
qed

text \<open>A final transcript is only ever written for an end time before the window.\<close>

lemma handle_response_Final:
  assumes "Final g tr \<in> set (fst (snd (handle_response resp s)))"
  shows "g + bridging_offset s - STREAMING_LIMIT * restart_counter s
           < STREAMING_LIMIT - WORKAROUND_WINDOW"
  using assms by (auto simp: handle_response_def Let_def split: list.splits if_splits)

lemma listen_print_loop_Final:
  "Final g tr \<in> set (fst (snd (listen_print_loop rs s))) \<Longrightarrow>
     g + bridging_offset s - STREAMING_LIMIT * restart_counter s
       < STREAMING_LIMIT - WORKAROUND_WINDOW"
proof (induction rs arbitrary: s)
  case Nil
  then show ?case by simp
next
  case (Cons resp rest)
  obtain s' out b where h: "handle_response resp s = (s', out, b)"
    by (cases "handle_response resp s") auto
  have f: "bridging_offset s' = bridging_offset s" "restart_counter s' = restart_counter s"
    using handle_response_frame [of resp s] by (simp_all add: h)
  have o: "Final g tr \<in> set out \<Longrightarrow> ?case"
    using handle_response_Final [of g tr resp s] by (simp add: h)
  show ?case
  proof (cases b)
    case True
    then show ?thesis using Cons.prems o by (simp add: h)
  next
    case False
    then have "Final g tr \<in> set out \<or> Final g tr \<in> set (fst (snd (listen_print_loop rest s')))"
      using Cons.prems by (simp add: h split: prod.splits)
    then show ?thesis using o Cons.IH [of s'] by (auto simp: f)
  qed
qed

subsection \<open>The global end time\<close>

text \<open>
  Claim C1. For a response whose first result carries an alternative, what the loop body
  writes is determined as follows: the time written with the transcript is
  \<open>t - bridging_offset + STREAMING_LIMIT * restart_counter\<close>, where \<open>t\<close> is the
  in-session end time of the result in milliseconds; for a reported end time without
  negative parts, \<open>t\<close> is \<open>seconds * 1000 + nanos div 1000000\<close>. With restart counter
  1, bridging offset 50 and \<open>t = 3000\<close> the time written is 12950.
\<close>

theorem global_end_time:
  "(results resp = res # others \<and> alternatives res = alt # alts \<longrightarrow>
      fst (snd (handle_response resp s)) =
        (let t = end_time_ms (end_time res);
             g = t - bridging_offset s + STREAMING_LIMIT * restart_counter s
         in if is_final res then
              (if t < STREAMING_LIMIT - WORKAROUND_WINDOW
               then Final g (transcript alt)
                      # (if stop_keyword (transcript alt) then [Exiting] else [])
               else [])
            else [Interim g (transcript alt)])) \<and>
   (0 \<le> seconds d \<and> 0 \<le> nanos d \<longrightarrow>
      end_time_ms d = seconds d * 1000 + nanos d div 1000000) \<and>
   (results resp = res # others \<and> alternatives res = alt # alts \<and>
    restart_counter s = 1 \<and> bridging_offset s = 50 \<and> end_time_ms (end_time res) = 3000 \<longrightarrow>
      fst (snd (handle_response resp s)) =
        (if is_final res
         then Final 12950 (transcript alt)
                # (if stop_keyword (transcript alt) then [Exiting] else [])
         else [Interim 12950 (transcript alt)]))"
  by (simp add: handle_response_alt end_time_ms_nonneg Let_def STREAMING_LIMIT_def
      WORKAROUND_WINDOW_def)

theorem global_end_time_witness:
  "fst (snd (handle_response (single_result False 3 0 ''hello'')
       ((init 0)\<lparr>restart_counter := 1, bridging_offset := 50\<rparr>)))
     = [Interim 12950 ''hello''] \<and>
   end_time_ms \<lparr>seconds = 3, nanos = 0\<rparr> = 3000"
proof -
  have t: "end_time_ms \<lparr>seconds = 3, nanos = 0\<rparr> = 3000"
    by (simp add: end_time_ms_def py_int_def)
  show ?thesis
    using t global_end_time
      [of "single_result False 3 0 ''hello''"
          "\<lparr>alternatives = [\<lparr>transcript = ''hello''\<rparr>], is_final = False,
            end_time = \<lparr>seconds = 3, nanos = 0\<rparr>\<rparr>" "[]" "\<lparr>transcript = ''hello''\<rparr>" "[]"
          "(init 0)\<lparr>restart_counter := 1, bridging_offset := 50\<rparr>"
          "\<lparr>seconds = 3, nanos = 0\<rparr>"]
    by (simp add: single_result_def init_def STREAMING_LIMIT_def)
qed

subsection \<open>Suppression at the session boundary\<close>

text \<open>
  Claim C3. For a final result that carries an alternative, a final transcript is written
  exactly when its in-session end time is below
  \<open>STREAMING_LIMIT - WORKAROUND_WINDOW\<close>, and \<open>is_final_end_time\<close> and
  \<open>last_transcript_was_final\<close> change only in that case; at or above the bound nothing
  is written. No final transcript written by the whole loop has an in-session end time at
  or above the bound. A final result at 9850 ms writes nothing.
\<close>

theorem boundary_suppression:
  "(results resp = res # others \<and> alternatives res = alt # alts \<and> is_final res \<longrightarrow>
      ((\<exists>g tr. Final g tr \<in> set (fst (snd (handle_response resp s))))
         \<longleftrightarrow> end_time_ms (end_time res) < STREAMING_LIMIT - WORKAROUND_WINDOW) \<and>
      (is_final_end_time (fst (handle_response resp s)) \<noteq> is_final_end_time s
         \<longrightarrow> end_time_ms (end_time res) < STREAMING_LIMIT - WORKAROUND_WINDOW) \<and>
      (last_transcript_was_final (fst (handle_response resp s)) \<noteq> last_transcript_was_final s
         \<longrightarrow> end_time_ms (end_time res) < STREAMING_LIMIT - WORKAROUND_WINDOW) \<and>
      (STREAMING_LIMIT - WORKAROUND_WINDOW \<le> end_time_ms (end_time res)
         \<longrightarrow> fst (snd (handle_response resp s)) = [])) \<and>
   (Final g tr \<in> set (fst (snd (listen_print_loop rs s))) \<longrightarrow>
      g + bridging_offset s - STREAMING_LIMIT * restart_counter s
        < STREAMING_LIMIT - WORKAROUND_WINDOW) \<and>
   (results resp = res # others \<and> alternatives res = alt # alts \<and> is_final res \<and>
    end_time_ms (end_time res) = 9850 \<longrightarrow>
      fst (snd (handle_response resp s)) = [])"
  using listen_print_loop_Final [of g tr rs s]
  by (auto simp: handle_response_alt Let_def STREAMING_LIMIT_def WORKAROUND_WINDOW_def)

theorem boundary_suppression_witness:
  "end_time_ms \<lparr>seconds = 9, nanos = 850000000\<rparr> = 9850 \<and>
   fst (snd (handle_response (single_result True 9 850000000 ''hello'') (init 0))) = [] \<and>
   Final 3000 ''hello''
     \<in> set (fst (snd (listen_print_loop [single_result True 3 0 ''hello''] (init 0)))) \<and>
   3000 + bridging_offset (init 0) - STREAMING_LIMIT * restart_counter (init 0)
     < STREAMING_LIMIT - WORKAROUND_WINDOW"
proof -
  have t: "end_time_ms \<lparr>seconds = 9, nanos = 850000000\<rparr> = 9850"
    by (simp add: end_time_ms_def py_int_def)
  have m: "Final 3000 ''hello''
     \<in> set (fst (snd (listen_print_loop [single_result True 3 0 ''hello''] (init 0))))"
    by code_simp
  show ?thesis
    using t m boundary_suppression
      [of "single_result True 9 850000000 ''hello''"
          "\<lparr>alternatives = [\<lparr>transcript = ''hello''\<rparr>], is_final = True,
            end_time = \<lparr>seconds = 9, nanos = 850000000\<rparr>\<rparr>" "[]" "\<lparr>transcript = ''hello''\<rparr>" "[]"
          "init 0" 3000 "''hello''" "[single_result True 3 0 ''hello'']"]
    by (simp add: single_result_def)
qed

subsection \<open>A final result in the workaround window\<close>

text \<open>
  Claim C10. A final result whose in-session end time is at or above
  \<open>STREAMING_LIMIT - WORKAROUND_WINDOW\<close> changes \<open>result_end_time\<close> and nothing else:
  \<open>is_final_end_time\<close>, \<open>last_transcript_was_final\<close> and \<open>closed\<close> keep their values,
  nothing is written, the transcript is not searched for a stop keyword, and the loop goes
  on with the next response.
\<close>

theorem workaround_window_frame:
  "results resp = res # others \<and> alternatives res = alt # alts \<and> is_final res \<and>
   STREAMING_LIMIT - WORKAROUND_WINDOW \<le> end_time_ms (end_time res) \<longrightarrow>
     handle_response resp s = (s\<lparr>result_end_time := end_time_ms (end_time res)\<rparr>, [], False) \<and>
     listen_print_loop (resp # rest) s =
       listen_print_loop rest (s\<lparr>result_end_time := end_time_ms (end_time res)\<rparr>)"
  by (auto simp: handle_response_alt Let_def)

theorem workaround_window_frame_witness:
  "stop_keyword ''please exit'' \<and>
   STREAMING_LIMIT - WORKAROUND_WINDOW \<le> end_time_ms \<lparr>seconds = 9, nanos = 850000000\<rparr> \<and>
   handle_response (single_result True 9 850000000 ''please exit'') (init 0)
     = ((init 0)\<lparr>result_end_time := 9850\<rparr>, [], False) \<and>
   listen_print_loop [single_result True 9 850000000 ''please exit''] (init 0)
     = ((init 0)\<lparr>result_end_time := 9850\<rparr>, [], [])"
proof -
  have k: "stop_keyword ''please exit''"
    by code_simp
  have t: "end_time_ms \<lparr>seconds = 9, nanos = 850000000\<rparr> = 9850"
    by (simp add: end_time_ms_def py_int_def)
  show ?thesis
    using k t workaround_window_frame
      [of "single_result True 9 850000000 ''please exit''"
          "\<lparr>alternatives = [\<lparr>transcript = ''please exit''\<rparr>], is_final = True,
            end_time = \<lparr>seconds = 9, nanos = 850000000\<rparr>\<rparr>" "[]"
          "\<lparr>transcript = ''please exit''\<rparr>" "[]" "init 0" "[]"]
    by (simp add: single_result_def STREAMING_LIMIT_def WORKAROUND_WINDOW_def)
qed

section \<open>Properties of the chunk producer\<close>

subsection \<open>Rounding and the range loop\<close>

lemma py_round_bounds:
  "x - 1 / 2 \<le> of_int (py_round x)" "of_int (py_round x) \<le> x + 1 / 2"
proof -
  have fl: "of_int \<lfloor>x\<rfloor> \<le> x" "x < of_int \<lfloor>x\<rfloor> + 1"
    by linarith+
  consider "x - of_int \<lfloor>x\<rfloor> < 1 / 2" | "1 / 2 < x - of_int \<lfloor>x\<rfloor>"
    | "x - of_int \<lfloor>x\<rfloor> = 1 / 2"
    by linarith
  then have "x - 1 / 2 \<le> of_int (py_round x) \<and> of_int (py_round x) \<le> x + 1 / 2"
  proof cases
    case 1
    then have r: "py_round x = \<lfloor>x\<rfloor>" by (simp add: py_round_def Let_def)
    show ?thesis unfolding r using fl 1 by linarith
  next
    case 2
    then have r: "py_round x = \<lfloor>x\<rfloor> + 1" by (simp add: py_round_def Let_def)
    show ?thesis unfolding r of_int_add of_int_1 using fl 2 by linarith
  next
    case 3
    then have "py_round x = \<lfloor>x\<rfloor> \<or> py_round x = \<lfloor>x\<rfloor> + 1"
      by (simp add: py_round_def Let_def)
    then show ?thesis
    proof
      assume r: "py_round x = \<lfloor>x\<rfloor>"
      show ?thesis unfolding r using fl 3 by linarith
    next
      assume r: "py_round x = \<lfloor>x\<rfloor> + 1"
      show ?thesis unfolding r of_int_add of_int_1 using fl 3 by linarith
    qed
  qed
  then show "x - 1 / 2 \<le> of_int (py_round x)" "of_int (py_round x) \<le> x + 1 / 2"
    by simp_all
qed

lemma py_round_of_int [simp]: "py_round (of_int n) = n"
  by (simp add: py_round_def)

lemma py_round_numeral [simp]: "py_round (numeral k) = numeral k"
  using py_round_of_int [of "numeral k"] by simp

lemma py_round_nonneg: "0 \<le> x \<Longrightarrow> 0 \<le> py_round x"
proof -
  assume "0 \<le> x"
  then have "0 \<le> \<lfloor>x\<rfloor>" by simp
  then show ?thesis by (auto simp: py_round_def Let_def)
qed

lemma py_round_le_int:
  assumes "x \<le> of_int i"
  shows "py_round x \<le> i"
proof -
  have "of_int (py_round x) \<le> (of_int i :: rat) + 1 / 2"
    using py_round_bounds(2) [of x] assms by linarith
  then have "(of_int (py_round x) :: rat) < of_int (i + 1)"
    by simp
  then have "py_round x < i + 1"
    by (simp only: of_int_less_iff)
  then show ?thesis by simp
qed

text \<open>Rounding to a double.\<close>

lemma ilog2_bounds:
  assumes "0 < x"
  shows "2 powi ilog2 x \<le> x" "x < 2 powi (ilog2 x + 1)"
proof -
  obtain p q where pq: "quotient_of x = (p, q)"
    by (cases "quotient_of x") auto
  have q: "0 < q" using pq by (rule quotient_of_denom_pos)
  have x: "x = of_int p / of_int q" using pq by (rule quotient_of_div)
  have p: "0 < p" using assms q unfolding x by (simp add: zero_less_divide_iff)
  let ?d = "bitlen p - bitlen q"
  have bp: "1 \<le> bitlen p" "1 \<le> bitlen q"
    using p q bitlen_eq_zero_iff [of p] bitlen_eq_zero_iff [of q] bitlen_nonneg [of p]
      bitlen_nonneg [of q] by linarith+
  have P: "(2::rat) powi (bitlen p - 1) \<le> of_int p" "of_int p < (2::rat) powi bitlen p"
  proof -
    have "(2::int) ^ nat (bitlen p - 1) \<le> p" "p < 2 ^ nat (bitlen p)"
      using bitlen_bounds [OF p] by simp_all
    then have "(of_int (2 ^ nat (bitlen p - 1)) :: rat) \<le> of_int p"
      "(of_int p :: rat) < of_int (2 ^ nat (bitlen p))"
      by (simp_all only: of_int_le_iff of_int_less_iff)
    then show "(2::rat) powi (bitlen p - 1) \<le> of_int p" "of_int p < (2::rat) powi bitlen p"
      using bp by (simp_all add: power_int_def)
  qed
  have Q: "(2::rat) powi (bitlen q - 1) \<le> of_int q" "of_int q < (2::rat) powi bitlen q"
  proof -
    have "(2::int) ^ nat (bitlen q - 1) \<le> q" "q < 2 ^ nat (bitlen q)"
      using bitlen_bounds [OF q] by simp_all
    then have "(of_int (2 ^ nat (bitlen q - 1)) :: rat) \<le> of_int q"
      "(of_int q :: rat) < of_int (2 ^ nat (bitlen q))"
      by (simp_all only: of_int_le_iff of_int_less_iff)
    then show "(2::rat) powi (bitlen q - 1) \<le> of_int q" "of_int q < (2::rat) powi bitlen q"
      using bp by (simp_all add: power_int_def)
  qed
  have qpos: "(0::rat) < of_int q" using q by simp
  have lo: "2 powi (?d - 1) < x"
  proof -
    have "2 powi (?d - 1) * of_int q < (2::rat) powi (?d - 1) * 2 powi bitlen q"
      using Q(2) by (simp add: mult_strict_left_mono)
    also have "\<dots> = 2 powi (bitlen p - 1)"
      by (simp add: power_int_add [symmetric])
    also have "\<dots> \<le> of_int p" by (rule P(1))
    finally show ?thesis
      unfolding x using qpos by (simp add: pos_less_divide_eq)
  qed
  have hi: "x < 2 powi (?d + 1)"
  proof -
    have "of_int p < (2::rat) powi bitlen p" by (rule P(2))
    also have "\<dots> = 2 powi (?d + 1) * 2 powi (bitlen q - 1)"
      by (simp add: power_int_add [symmetric])
    also have "\<dots> \<le> 2 powi (?d + 1) * of_int q"
      using Q(1) by (simp add: mult_left_mono)
    finally show ?thesis
      unfolding x using qpos by (simp add: pos_divide_less_eq)
  qed
  have il: "ilog2 x = (if 2 powi ?d \<le> x then ?d else ?d - 1)"
    by (simp add: ilog2_def pq Let_def)
  show "2 powi ilog2 x \<le> x"
    using lo by (simp add: il)
  show "x < 2 powi (ilog2 x + 1)"
    using hi by (auto simp: il not_le)
qed

lemma fl_zero [simp]: "fl 0 = 0"
  by (simp add: fl_def)

lemma fl_error: "\<bar>fl x - x\<bar> \<le> unit_roundoff * \<bar>x\<bar>"
proof (cases "x = 0")
  case True
  then show ?thesis by simp
next
  case False
  define e where "e = ilog2 \<bar>x\<bar> - 52"
  define s :: rat where "s = 2 powi e"
  define z where "z = x / s"
  have s: "0 < s" by (simp add: s_def)
  have ax: "0 < \<bar>x\<bar>" using False by simp
  have "2 powi (e + 52) \<le> \<bar>x\<bar>"
    using ilog2_bounds(1) [OF ax] by (simp add: e_def)
  then have lo: "s * 2 ^ 52 \<le> \<bar>x\<bar>"
    by (simp add: s_def power_int_add)
  have f: "fl x = of_int (py_round z) * s"
    using False by (simp add: fl_def Let_def e_def s_def z_def)
  have x: "x = z * s" using s by (simp add: z_def)
  have "fl x - x = of_int (py_round z) * s - z * s"
    unfolding f using x by simp
  then have "fl x - x = (of_int (py_round z) - z) * s"
    by (simp add: algebra_simps)
  then have "\<bar>fl x - x\<bar> = \<bar>of_int (py_round z) - z\<bar> * s"
    using s by (simp add: abs_mult)
  also have "\<bar>of_int (py_round z) - z\<bar> \<le> 1 / 2"
    using py_round_bounds [of z] by linarith
  finally have "\<bar>fl x - x\<bar> \<le> 1 / 2 * s"
    using s by (simp add: mult_right_mono)
  also have "1 / 2 * s = unit_roundoff * (s * 2 ^ 52)"
    by (simp add: unit_roundoff_def)
  also have "\<dots> \<le> unit_roundoff * \<bar>x\<bar>"
    using lo by (simp add: unit_roundoff_def)
  finally show ?thesis .
qed

lemma fl_of_int:
  assumes "\<bar>k\<bar> < 2 ^ 53"
  shows "fl (of_int k) = of_int k"
proof (cases "k = 0")
  case True
  then show ?thesis by simp
next
  case False
  define e where "e = ilog2 \<bar>of_int k\<bar> - 52"
  have ak: "(0::rat) < \<bar>of_int k\<bar>" using False by simp
  have "2 powi ilog2 \<bar>of_int k\<bar> \<le> \<bar>of_int k :: rat\<bar>"
    using ilog2_bounds(1) [OF ak] .
  also have "\<dots> < 2 powi 53"
  proof -
    have "(of_int \<bar>k\<bar> :: rat) < of_int (2 ^ 53)"
      using assms by (simp only: of_int_less_iff)
    then show ?thesis by simp
  qed
  finally have "(2::rat) powi ilog2 \<bar>of_int k\<bar> < 2 powi 53" .
  then have "ilog2 \<bar>of_int k :: rat\<bar> < 53"
    by (rule power_int_le_imp_less_exp [rotated]) simp_all
  then have e: "e \<le> 0" by (simp add: e_def)
  have p: "(2::rat) powi e = 1 / 2 ^ nat (- e)"
    using e by (simp add: power_int_def field_simps)
  have "of_int k / (2::rat) powi e = of_int (k * 2 ^ nat (- e))"
    by (simp add: p)
  then have "py_round (of_int k / 2 powi e) = k * 2 ^ nat (- e)"
    by (simp only: py_round_of_int)
  then show ?thesis
    using False by (simp add: fl_def Let_def e_def [symmetric] p)
qed

lemma fl_upper: "0 \<le> x \<Longrightarrow> fl x \<le> x * (1 + unit_roundoff)"
  using fl_error [of x] by (simp add: abs_le_iff algebra_simps)

lemma fl_lower: "0 \<le> x \<Longrightarrow> x * (1 - unit_roundoff) \<le> fl x"
  using fl_error [of x] by (simp add: abs_le_iff algebra_simps)

lemma fl_nonneg: "0 \<le> x \<Longrightarrow> 0 \<le> fl x"
proof -
  assume a: "0 \<le> x"
  have "0 \<le> x * (1 - unit_roundoff)"
    using a by (simp add: unit_roundoff_def)
  then show ?thesis using fl_lower [OF a] by linarith
qed

lemma fl_pos: "0 < x \<Longrightarrow> 0 < fl x"
proof -
  assume a: "0 < x"
  have "0 < x * (1 - unit_roundoff)"
    using a by (simp add: unit_roundoff_def)
  then show ?thesis using fl_lower [of x] a by linarith
qed

lemma fl_nonpos: "x \<le> 0 \<Longrightarrow> fl x \<le> 0"
proof -
  assume a: "x \<le> 0"
  have "fl x \<le> x + unit_roundoff * \<bar>x\<bar>"
    using fl_error [of x] by (simp add: abs_le_iff)
  also have "\<dots> = x * (1 - unit_roundoff)"
    using a by (simp add: algebra_simps)
  also have "\<dots> \<le> 0"
    using a by (simp add: unit_roundoff_def mult_le_0_iff)
  finally show ?thesis .
qed

lemma py_float_nonneg: "0 \<le> n \<Longrightarrow> 0 \<le> py_float n"
  by (simp add: py_float_def fl_nonneg)

lemma py_float_small: "\<bar>n\<bar> < 2 ^ 53 \<Longrightarrow> py_float n = of_int n"
  by (simp add: py_float_def fl_of_int)

lemma append_chunks_upto:
  "0 \<le> a \<Longrightarrow> append_chunks xs [a .. int (length xs) - 1] data = Inr (data @ drop (nat a) xs)"
proof (induction "nat (int (length xs) - a)" arbitrary: a data)
  case 0
  then have "[a .. int (length xs) - 1] = []" "drop (nat a) xs = []"
    by auto
  then show ?case by simp
next
  case (Suc k)
  then have lt: "a < int (length xs)" and k: "k = nat (int (length xs) - (a + 1))"
    by linarith+
  have u: "[a .. int (length xs) - 1] = a # [a + 1 .. int (length xs) - 1]"
    using lt by (simp add: upto_rec1)
  have g: "py_getitem xs a = Inr (xs ! nat a)"
    using lt Suc.prems by (simp add: py_getitem_def)
  have d: "drop (nat a) xs = xs ! nat a # drop (nat (a + 1)) xs"
    using lt Suc.prems by (simp add: Cons_nth_drop_Suc nat_add_distrib)
  show ?case
    using Suc.hyps(1) [OF k, of "data @ [xs ! nat a]"] Suc.prems
    by (simp add: u g d)
qed

subsection \<open>The replay step in closed form\<close>

lemma clamp_bridging_eq:
  "clamp_bridging s =
     s\<lparr>bridging_offset := min (final_request_end_time s) (max 0 (bridging_offset s))\<rparr>"
  by (simp add: clamp_bridging_def Let_def min_def max_def)

lemma clamp_bridging_le:
  "bridging_offset (clamp_bridging s) \<le> final_request_end_time s"
  by (simp add: clamp_bridging_eq)

lemma bridge_eq:
  assumes "0 < ct"
  shows "bridge ct s =
     (let b = bridging_offset (clamp_bridging s);
          start = py_round (fl (py_float (final_request_end_time s - b) / ct))
      in Inr (s\<lparr>bridging_offset :=
                  py_round (py_mul (py_float (int (length (last_audio_input s)) - start)) ct)\<rparr>,
              drop (nat start) (last_audio_input s)))"
proof -
  let ?b = "bridging_offset (clamp_bridging s)"
  let ?q = "fl (py_float (final_request_end_time s - ?b) / ct)"
  have "0 \<le> py_float (final_request_end_time s - ?b)"
    using clamp_bridging_le [of s] by (simp add: py_float_nonneg)
  then have "0 \<le> py_float (final_request_end_time s - ?b) / ct"
    using assms by simp
  then have "0 \<le> ?q"
    by (rule fl_nonneg)
  then have fr: "0 \<le> py_round ?q"
    by (rule py_round_nonneg)
  have f: "final_request_end_time (clamp_bridging s) = final_request_end_time s"
    "last_audio_input (clamp_bridging s) = last_audio_input s"
    by (simp_all add: clamp_bridging_eq)
  have c: "(clamp_bridging s)\<lparr>bridging_offset := v\<rparr> = s\<lparr>bridging_offset := v\<rparr>" for v
    by (simp add: clamp_bridging_eq)
  show ?thesis
    using assms append_chunks_upto [OF fr, of "last_audio_input s" "[]"]
    by (simp add: bridge_def py_truediv_def Let_def f c)
qed

lemma chunkTime_pos:
  "xs \<noteq> [] \<Longrightarrow> 0 < fl (of_int STREAMING_LIMIT / of_nat (length xs))"
  by (rule fl_pos) (simp add: STREAMING_LIMIT_def)

lemma replay_eq:
  assumes "new_stream s" "last_audio_input s \<noteq> []"
  shows "replay s =
     (let ct = fl (of_int STREAMING_LIMIT / of_nat (length (last_audio_input s)));
          b = bridging_offset (clamp_bridging s);
          start = py_round (fl (py_float (final_request_end_time s - b) / ct))
      in Inr (s\<lparr>bridging_offset :=
                  py_round (py_mul (py_float (int (length (last_audio_input s)) - start)) ct),
                new_stream := False\<rparr>,
              drop (nat start) (last_audio_input s)))"
  using assms bridge_eq [OF chunkTime_pos [OF assms(2)], of s]
  by (simp add: replay_def py_truediv_def Let_def)

lemma replay_skip:
  "\<not> new_stream s \<or> last_audio_input s = [] \<Longrightarrow> replay s = Inr (s, [])"
  by (auto simp: replay_def)

lemma drain_no_sentinel:
  "None \<notin> set q \<Longrightarrow>
     drain q data s = (s\<lparr>audio_input := audio_input s @ q\<rparr>, Some (data @ q))"
proof (induction q arbitrary: data s)
  case Nil
  show ?case by simp
next
  case (Cons x q)
  then obtain c where x: "x = Some c" by (cases x) auto
  show ?case using Cons by (simp add: x)
qed

lemma py_join_Some: "None \<notin> set xs \<Longrightarrow> py_join xs = Inr (concat (map the xs))"
proof (induction xs)
  case Nil
  show ?case by simp
next
  case (Cons x xs)
  then obtain c where x: "x = Some c" by (cases x) auto
  show ?case using Cons by (simp add: x)
qed

lemma generator_iter_yield:
  assumes "\<not> closed s" "now_check t - start_time s \<le> STREAMING_LIMIT"
    "replay s = Inr (s1, data)" "got t = Some c" "None \<notin> set (buffered t)"
    "None \<notin> set data"
  shows "generator_iter t s =
     Inr (s1\<lparr>audio_input := audio_input s1 @ Some c # buffered t\<rparr>,
          Yield (concat (map the data) @ c @ concat (map the (buffered t))))"
proof -
  have d: "drain (buffered t) (data @ [Some c]) (s1\<lparr>audio_input := audio_input s1 @ [Some c]\<rparr>)
      = (s1\<lparr>audio_input := audio_input s1 @ Some c # buffered t\<rparr>,
         Some (data @ Some c # buffered t))"
    using drain_no_sentinel [OF assms(5)] by simp
  have j: "py_join (data @ Some c # buffered t)
      = Inr (concat (map the data) @ c @ concat (map the (buffered t)))"
    using py_join_Some [of "data @ Some c # buffered t"] assms(5,6) by simp
  show ?thesis
    using assms(1,2) by (simp add: generator_iter_def assms(3,4) d j Let_def)
qed

lemma replay_total: "\<exists>s' data. replay s = Inr (s', data)"
proof (cases "new_stream s \<and> last_audio_input s \<noteq> []")
  case True
  then show ?thesis using replay_eq [of s] by (simp add: Let_def)
next
  case False
  then show ?thesis using replay_skip [of s] by auto
qed

lemma append_chunks_error: "append_chunks xs js data = Inl e \<Longrightarrow> e = IndexError"
proof (induction js arbitrary: data)
  case Nil
  then show ?case by simp
next
  case (Cons i js)
  then show ?case
    by (cases "py_getitem xs i") (auto simp: py_getitem_def split: if_splits)
qed

lemma bridge_error: "bridge ct s = Inl e \<Longrightarrow> e = IndexError"
  by (auto simp: bridge_def py_truediv_def Let_def split: if_splits sum.splits
      dest: append_chunks_error)

lemma generator_iter_error: "generator_iter t s = Inl e \<Longrightarrow> e = TypeError"
proof -
  assume a: "generator_iter t s = Inl e"
  obtain s1 data where r: "replay s = Inr (s1, data)"
    using replay_total by blast
  have "py_join xs = Inl e' \<Longrightarrow> e' = TypeError" for xs e'
    by (induction xs rule: py_join.induct) (auto split: sum.splits)
  then show ?thesis
    using a by (auto simp: generator_iter_def r Let_def split: if_splits option.splits prod.splits sum.splits)
qed

lemma clamp_bridging_spec:
  "0 \<le> final_request_end_time s \<Longrightarrow>
     bridging_offset (clamp_bridging s)
       = clamp_into 0 (final_request_end_time s) (bridging_offset s)"
  by (simp add: clamp_bridging_eq clamp_into_def)

lemma replay_spec:
  assumes "new_stream s" "last_audio_input s \<noteq> []" "0 \<le> final_request_end_time s"
  shows "replay s =
     Inr (s\<lparr>bridging_offset :=
              next_bridging_offset (length (last_audio_input s)) (final_request_end_time s)
                (bridging_offset s),
            new_stream := False\<rparr>,
          drop (nat (chunksFromIndex (length (last_audio_input s)) (final_request_end_time s)
                       (bridging_offset s)))
            (last_audio_input s))"
  using replay_eq [OF assms(1,2)] clamp_bridging_spec [OF assms(3)]
  by (simp add: Let_def next_bridging_offset_def chunksFromIndex_def chunkDurationMs_double_def
      chunkDurationMs_def py_mul_def)

lemma chunksFromIndex_nonneg:
  assumes "0 < count" "0 \<le> f"
  shows "0 \<le> chunksFromIndex count f b"
proof -
  have "0 \<le> f - clamp_into 0 f b"
    using assms(2) by (simp add: clamp_into_def)
  then have "0 \<le> py_float (f - clamp_into 0 f b)"
    by (rule py_float_nonneg)
  moreover have "0 < chunkDurationMs_double count"
    unfolding chunkDurationMs_double_def
    using assms(1) by (intro fl_pos) (simp add: chunkDurationMs_def STREAMING_LIMIT_def)
  ultimately have "0 \<le> py_float (f - clamp_into 0 f b) / chunkDurationMs_double count"
    by simp
  then have "0 \<le> fl (py_float (f - clamp_into 0 f b) / chunkDurationMs_double count)"
    by (rule fl_nonneg)
  then show ?thesis
    unfolding chunksFromIndex_def by (rule py_round_nonneg)
qed

lemma scenario_100:
  "chunkDurationMs 100 = 100" "chunkDurationMs_double 100 = 100"
  "chunksFromIndex 100 8000 0 = 80" "next_bridging_offset 100 8000 0 = 2000"
proof -
  show c: "chunkDurationMs 100 = 100"
    by (simp add: chunkDurationMs_def STREAMING_LIMIT_def)
  have i: "fl (of_int k) = of_int k" if "\<bar>k\<bar> < 2 ^ 53" for k
    using that by (rule fl_of_int)
  have "fl (of_int 100) = of_int 100"
    by (rule i) simp
  then show d: "chunkDurationMs_double 100 = 100"
    by (simp add: chunkDurationMs_double_def c)
  have "py_float (8000 - clamp_into 0 8000 0) = of_int 8000"
    by (simp add: clamp_into_def py_float_small)
  moreover have "fl (of_int 80) = of_int 80"
    by (rule i) simp
  ultimately show f: "chunksFromIndex 100 8000 0 = 80"
    by (simp add: chunksFromIndex_def d)
  have "py_float (int 100 - 80) = of_int 20"
    by (simp add: py_float_small)
  moreover have "fl (of_int 2000) = of_int 2000"
    by (rule i) simp
  ultimately show "next_bridging_offset 100 8000 0 = 2000"
    by (simp add: next_bridging_offset_def d f)
qed






subsection \<open>No replay without a history\<close>

text \<open>
  Claim C9. With an empty previous history the replay step returns the state as it was and
  no chunk, without dividing; for a chunk time of zero the guarded part does the same.
  Neither the guarded part, nor the replay step, nor an iteration of the producer ever
  raises \<open>ZeroDivisionError\<close>, and with an empty history an iteration yields the newly
  captured chunks only.
\<close>

theorem replay_skipped:
  "(last_audio_input s = [] \<longrightarrow> replay s = Inr (s, [])) \<and>
   bridge 0 s = Inr (s, []) \<and>
   bridge ct s \<noteq> Inl ZeroDivisionError \<and>
   replay s \<noteq> Inl ZeroDivisionError \<and>
   generator_iter t s \<noteq> Inl ZeroDivisionError \<and>
   (last_audio_input s = [] \<and> \<not> closed s \<and> now_check t - start_time s \<le> STREAMING_LIMIT \<and>
    got t = Some c \<and> None \<notin> set (buffered t) \<longrightarrow>
      generator_iter t s =
        Inr (s\<lparr>audio_input := audio_input s @ Some c # buffered t\<rparr>,
             Yield (c @ concat (map the (buffered t)))))"
proof -
  have 1: "last_audio_input s = [] \<longrightarrow> replay s = Inr (s, [])"
    by (simp add: replay_skip)
  have 2: "bridge 0 s = Inr (s, [])"
    by (simp add: bridge_def)
  have 3: "bridge ct s \<noteq> Inl ZeroDivisionError"
    using bridge_error [of ct s ZeroDivisionError] by auto
  have 4: "replay s \<noteq> Inl ZeroDivisionError"
    using replay_total [of s] by auto
  have 5: "generator_iter t s \<noteq> Inl ZeroDivisionError"
    using generator_iter_error [of t s ZeroDivisionError] by auto
  have 6: "last_audio_input s = [] \<and> \<not> closed s \<and> now_check t - start_time s \<le> STREAMING_LIMIT \<and>
    got t = Some c \<and> None \<notin> set (buffered t) \<longrightarrow>
      generator_iter t s =
        Inr (s\<lparr>audio_input := audio_input s @ Some c # buffered t\<rparr>,
             Yield (c @ concat (map the (buffered t))))"
    using generator_iter_yield [of s t s "[]" c] by (simp add: replay_skip)
  show ?thesis
    using 1 2 3 4 5 6 by blast
qed

theorem replay_skipped_witness:
  "replay (init 0) = Inr (init 0, []) \<and>
   generator_iter \<lparr>now_check = 100, now_reset = 100, got = Some ''ab'', buffered = [Some ''cd'']\<rparr>
       (init 0)
     = Inr ((init 0)\<lparr>audio_input := [Some ''ab'', Some ''cd'']\<rparr>, Yield ''abcd'')"
  using replay_skipped
    [where s = "init 0" and c = "''ab''" and ct = 1
       and t = "\<lparr>now_check = 100, now_reset = 100, got = Some ''ab'', buffered = [Some ''cd'']\<rparr>"]
  by (simp add: init_def STREAMING_LIMIT_def)

subsection \<open>The replay computation\<close>

text \<open>
  Claim C2. At a restart with a non-empty previous history (and an end time of the last
  final result that is not negative, so that the interval of the clamping is not empty),
  the replay step computes what the specification words, in the floats of the program:
  the offset is clamped into the interval from 0 to that end time, the chunk duration is
  the quotient of the limit by the number of chunks, the start index is the rounded
  quotient of the remaining time by the chunk duration, the new offset is the rounded
  product of the number of chunks from the start index on by the chunk duration, and the
  chunks from the start index to the end are the first bytes the producer yields. With 100
  chunks, an end time of 8000 and an offset of 0 the start index is 80, the chunks 80 to 99
  are replayed and the new offset is 2000.
\<close>

theorem replay_computation:
  "(new_stream s \<and> last_audio_input s \<noteq> [] \<and> 0 \<le> final_request_end_time s \<longrightarrow>
      bridging_offset (clamp_bridging s)
        = clamp_into 0 (final_request_end_time s) (bridging_offset s) \<and>
      0 \<le> chunksFromIndex (length (last_audio_input s)) (final_request_end_time s)
             (bridging_offset s) \<and>
      replay s =
        Inr (s\<lparr>bridging_offset :=
                 next_bridging_offset (length (last_audio_input s)) (final_request_end_time s)
                   (bridging_offset s),
               new_stream := False\<rparr>,
             drop (nat (chunksFromIndex (length (last_audio_input s))
                          (final_request_end_time s) (bridging_offset s)))
               (last_audio_input s))) \<and>
   (new_stream s \<and> last_audio_input s \<noteq> [] \<and> 0 \<le> final_request_end_time s \<and>
    None \<notin> set (last_audio_input s) \<and>
    \<not> closed s \<and> now_check t - start_time s \<le> STREAMING_LIMIT \<and>
    got t = Some c \<and> None \<notin> set (buffered t) \<longrightarrow>
      (\<exists>s'. generator_iter t s =
         Inr (s', Yield (concat (map the
                  (drop (nat (chunksFromIndex (length (last_audio_input s))
                                (final_request_end_time s) (bridging_offset s)))
                     (last_audio_input s)))
                @ c @ concat (map the (buffered t)))))) \<and>
   (new_stream s \<and> length (last_audio_input s) = 100 \<and> final_request_end_time s = 8000 \<and>
    bridging_offset s = 0 \<longrightarrow>
      chunkDurationMs 100 = 100 \<and> chunksFromIndex 100 8000 0 = 80 \<and>
      next_bridging_offset 100 8000 0 = 2000 \<and>
      replay s = Inr (s\<lparr>bridging_offset := 2000, new_stream := False\<rparr>,
                      drop 80 (last_audio_input s)))"
proof -
  have 1: "new_stream s \<and> last_audio_input s \<noteq> [] \<and> 0 \<le> final_request_end_time s \<longrightarrow>
      bridging_offset (clamp_bridging s)
        = clamp_into 0 (final_request_end_time s) (bridging_offset s) \<and>
      0 \<le> chunksFromIndex (length (last_audio_input s)) (final_request_end_time s)
             (bridging_offset s) \<and>
      replay s =
        Inr (s\<lparr>bridging_offset :=
                 next_bridging_offset (length (last_audio_input s)) (final_request_end_time s)
                   (bridging_offset s),
               new_stream := False\<rparr>,
             drop (nat (chunksFromIndex (length (last_audio_input s))
                          (final_request_end_time s) (bridging_offset s)))
               (last_audio_input s))"
    using replay_spec [of s] clamp_bridging_spec [of s]
      chunksFromIndex_nonneg [of "length (last_audio_input s)" "final_request_end_time s"]
    by simp
  have 2: "new_stream s \<and> last_audio_input s \<noteq> [] \<and> 0 \<le> final_request_end_time s \<and>
    None \<notin> set (last_audio_input s) \<and>
    \<not> closed s \<and> now_check t - start_time s \<le> STREAMING_LIMIT \<and>
    got t = Some c \<and> None \<notin> set (buffered t) \<longrightarrow>
      (\<exists>s'. generator_iter t s =
         Inr (s', Yield (concat (map the
                  (drop (nat (chunksFromIndex (length (last_audio_input s))
                                (final_request_end_time s) (bridging_offset s)))
                     (last_audio_input s)))
                @ c @ concat (map the (buffered t)))))"
  proof (intro impI, elim conjE)
    assume a: "new_stream s" "last_audio_input s \<noteq> []" "0 \<le> final_request_end_time s"
      "None \<notin> set (last_audio_input s)" "\<not> closed s"
      "now_check t - start_time s \<le> STREAMING_LIMIT" "got t = Some c"
      "None \<notin> set (buffered t)"
    let ?d = "drop (nat (chunksFromIndex (length (last_audio_input s))
                          (final_request_end_time s) (bridging_offset s))) (last_audio_input s)"
    have n: "None \<notin> set ?d"
      using a(4) in_set_dropD by fastforce
    show "\<exists>s'. generator_iter t s =
         Inr (s', Yield (concat (map the ?d) @ c @ concat (map the (buffered t))))"
      using generator_iter_yield [OF a(5,6) replay_spec [OF a(1,2,3)] a(7,8) n] by blast
  qed
  have 3: "new_stream s \<and> length (last_audio_input s) = 100 \<and> final_request_end_time s = 8000 \<and>
    bridging_offset s = 0 \<longrightarrow>
      chunkDurationMs 100 = 100 \<and> chunksFromIndex 100 8000 0 = 80 \<and>
      next_bridging_offset 100 8000 0 = 2000 \<and>
      replay s = Inr (s\<lparr>bridging_offset := 2000, new_stream := False\<rparr>,
                      drop 80 (last_audio_input s))"
  proof (intro impI, elim conjE)
    assume a: "new_stream s" "length (last_audio_input s) = 100"
      "final_request_end_time s = 8000" "bridging_offset s = 0"
    have ne: "last_audio_input s \<noteq> []" using a(2) by auto
    have "replay s = Inr (s\<lparr>bridging_offset := 2000, new_stream := False\<rparr>,
                      drop 80 (last_audio_input s))"
      using replay_spec [OF a(1) ne] by (simp add: a scenario_100)
    then show "chunkDurationMs 100 = 100 \<and> chunksFromIndex 100 8000 0 = 80 \<and>
      next_bridging_offset 100 8000 0 = 2000 \<and>
      replay s = Inr (s\<lparr>bridging_offset := 2000, new_stream := False\<rparr>,
                      drop 80 (last_audio_input s))"
      by (simp add: scenario_100)
  qed
  show ?thesis
    using 1 2 3 by blast
qed

theorem replay_computation_witness:
  "replay ((init 0)\<lparr>last_audio_input := numbered_chunks 100, final_request_end_time := 8000\<rparr>)
     = Inr ((init 0)\<lparr>last_audio_input := numbered_chunks 100, final_request_end_time := 8000,
                      bridging_offset := 2000, new_stream := False\<rparr>,
            drop 80 (numbered_chunks 100)) \<and>
   length (drop 80 (numbered_chunks 100)) = 20 \<and>
   (\<exists>s'. generator_iter (one_tick 50 ''x'')
            ((init 0)\<lparr>last_audio_input := numbered_chunks 100,
                       final_request_end_time := 8000\<rparr>)
          = Inr (s', Yield (concat (map the (drop 80 (numbered_chunks 100))) @ ''x'')))"
proof -
  have n: "None \<notin> set (numbered_chunks 100)"
    by (simp add: numbered_chunks_def image_iff)
  have l: "length (numbered_chunks 100) = 100" "numbered_chunks 100 \<noteq> []"
    by (simp_all add: numbered_chunks_def)
  have k: "chunksFromIndex 100 8000 0 = 80"
    by (rule scenario_100)
  show ?thesis
    using n l replay_computation
      [where s = "(init 0)\<lparr>last_audio_input := numbered_chunks 100,
                            final_request_end_time := 8000\<rparr>"
         and t = "one_tick 50 ''x''" and c = "''x''"]
    by (simp add: init_def one_tick_def STREAMING_LIMIT_def k)
qed

text \<open>
  The quotients are doubles: with 95 chunks and an end time of 3000 ms the chunk duration
  is the double nearest to 10000 / 95, the quotient of 3000 by it lies just above 28.5, and
  the replay starts at chunk 29 with the new offset 6947. The exact quotient is 28.5, which
  rounds to 28.
\<close>

lemma double_rounding_example:
  "chunksFromIndex 95 3000 0 = 29 \<and> next_bridging_offset 95 3000 0 = 6947 \<and>
   py_round (3000 / chunkDurationMs 95) = 28 \<and>
   replay ((init 0)\<lparr>last_audio_input := numbered_chunks 95, final_request_end_time := 3000\<rparr>)
     = Inr ((init 0)\<lparr>last_audio_input := numbered_chunks 95, final_request_end_time := 3000,
                      bridging_offset := 6947, new_stream := False\<rparr>,
            drop 29 (numbered_chunks 95))"
  by code_simp

subsection \<open>No chunk after the last final result is dropped\<close>




text \<open>
  A chunk that the end time cuts is outside the window when the end time lies in its
  second half: with 100 chunks and an end time of 8060 ms the window starts at chunk 81.
\<close>

lemma cut_chunk_example:
  "replay ((init 0)\<lparr>last_audio_input := numbered_chunks 100, final_request_end_time := 8060\<rparr>)
     = Inr ((init 0)\<lparr>last_audio_input := numbered_chunks 100, final_request_end_time := 8060,
                      bridging_offset := 1900, new_stream := False\<rparr>,
            drop 81 (numbered_chunks 100))"
  by code_simp

section \<open>Properties of the restart loop\<close>

subsection \<open>Frames and composition\<close>

lemma handle_response_closed:
  "closed (fst (handle_response resp s)) = (closed s \<or> snd (snd (handle_response resp s)))"
  by (simp add: handle_response_def Let_def split: list.splits)

lemma listen_print_loop_closed_mono:
  "closed s \<Longrightarrow> closed (fst (listen_print_loop rs s))"
proof (induction rs arbitrary: s)
  case Nil
  then show ?case by simp
next
  case (Cons resp rest)
  obtain s' out b where h: "handle_response resp s = (s', out, b)"
    by (cases "handle_response resp s") auto
  have c: "closed s'"
    using handle_response_closed [of resp s] Cons.prems by (simp add: h)
  show ?case
    using Cons.IH [OF c] c by (cases b) (auto simp: h split: prod.splits)
qed

lemma listen_print_loop_append:
  "\<not> closed (fst (listen_print_loop pre s)) \<Longrightarrow>
     listen_print_loop (pre @ rs) s =
       (fst (listen_print_loop rs (fst (listen_print_loop pre s))),
        fst (snd (listen_print_loop pre s))
          @ fst (snd (listen_print_loop rs (fst (listen_print_loop pre s)))),
        snd (snd (listen_print_loop rs (fst (listen_print_loop pre s)))))"
proof (induction pre arbitrary: s)
  case Nil
  show ?case by simp
next
  case (Cons resp rest)
  obtain s' out b where h: "handle_response resp s = (s', out, b)"
    by (cases "handle_response resp s") auto
  show ?case
  proof (cases b)
    case True
    then have "closed s'"
      using handle_response_closed [of resp s] by (simp add: h)
    then show ?thesis using Cons.prems True by (simp add: h)
  next
    case False
    then have "\<not> closed (fst (listen_print_loop rest s'))"
      using Cons.prems by (simp add: h split: prod.splits)
    then show ?thesis
      using Cons.IH [of s'] False by (simp add: h split: prod.splits)
  qed
qed

lemma end_of_session_closed: "closed (fst (end_of_session s)) = closed s"
  by (simp add: end_of_session_def Let_def)

lemma main_loop_closed: "closed s \<Longrightarrow> main_loop rest s = Inr (s, [], rest)"
  by (cases rest) simp_all

text \<open>The fields the producer never writes.\<close>

lemma replay_frame:
  assumes "replay s = Inr (s1, data)"
  shows "closed s1 = closed s" "restart_counter s1 = restart_counter s"
    "final_request_end_time s1 = final_request_end_time s"
    "is_final_end_time s1 = is_final_end_time s" "result_end_time s1 = result_end_time s"
    "last_transcript_was_final s1 = last_transcript_was_final s"
    "last_audio_input s1 = last_audio_input s" "audio_input s1 = audio_input s"
    "start_time s1 = start_time s"
proof -
  have "s1 = s \<or> (\<exists>v. s1 = s\<lparr>bridging_offset := v, new_stream := False\<rparr>)"
  proof (cases "new_stream s \<and> last_audio_input s \<noteq> []")
    case True
    then show ?thesis using assms replay_eq [of s] by (auto simp: Let_def)
  next
    case False
    then show ?thesis using assms replay_skip [of s] by auto
  qed
  then show "closed s1 = closed s" "restart_counter s1 = restart_counter s"
    "final_request_end_time s1 = final_request_end_time s"
    "is_final_end_time s1 = is_final_end_time s" "result_end_time s1 = result_end_time s"
    "last_transcript_was_final s1 = last_transcript_was_final s"
    "last_audio_input s1 = last_audio_input s" "audio_input s1 = audio_input s"
    "start_time s1 = start_time s"
    by auto
qed

lemma drain_frame:
  "drain q data s = (s1, r) \<Longrightarrow>
     closed s1 = closed s \<and> restart_counter s1 = restart_counter s \<and>
     final_request_end_time s1 = final_request_end_time s \<and>
     is_final_end_time s1 = is_final_end_time s \<and> result_end_time s1 = result_end_time s \<and>
     last_transcript_was_final s1 = last_transcript_was_final s \<and>
     last_audio_input s1 = last_audio_input s \<and> bridging_offset s1 = bridging_offset s \<and>
     new_stream s1 = new_stream s \<and> start_time s1 = start_time s"
  by (induction q data s rule: drain.induct) auto

lemma generator_iter_frame:
  assumes "generator_iter t s = Inr (s1, p)"
  shows "closed s1 = closed s" "restart_counter s1 = restart_counter s"
    "final_request_end_time s1 = final_request_end_time s"
    "is_final_end_time s1 = is_final_end_time s" "result_end_time s1 = result_end_time s"
    "last_transcript_was_final s1 = last_transcript_was_final s"
    "last_audio_input s1 = last_audio_input s"
proof -
  obtain sr data where r: "replay s = Inr (sr, data)"
    using replay_total by blast
  note f = replay_frame [OF r]
  have "closed s1 = closed s \<and> restart_counter s1 = restart_counter s \<and>
    final_request_end_time s1 = final_request_end_time s \<and>
    is_final_end_time s1 = is_final_end_time s \<and> result_end_time s1 = result_end_time s \<and>
    last_transcript_was_final s1 = last_transcript_was_final s \<and>
    last_audio_input s1 = last_audio_input s"
    using assms f
    by (auto simp: generator_iter_def r Let_def
        split: if_splits option.splits prod.splits sum.splits dest!: drain_frame)
  then show "closed s1 = closed s" "restart_counter s1 = restart_counter s"
    "final_request_end_time s1 = final_request_end_time s"
    "is_final_end_time s1 = is_final_end_time s" "result_end_time s1 = result_end_time s"
    "last_transcript_was_final s1 = last_transcript_was_final s"
    "last_audio_input s1 = last_audio_input s"
    by simp_all
qed

lemma generator_frame:
  "generator ts s = Inr (s1, reqs) \<Longrightarrow>
     closed s1 = closed s \<and> restart_counter s1 = restart_counter s \<and>
     final_request_end_time s1 = final_request_end_time s \<and>
     is_final_end_time s1 = is_final_end_time s \<and> result_end_time s1 = result_end_time s \<and>
     last_transcript_was_final s1 = last_transcript_was_final s \<and>
     last_audio_input s1 = last_audio_input s"
proof (induction ts arbitrary: s reqs)
  case Nil
  then show ?case by simp
next
  case (Cons t ts)
  from Cons.prems obtain s' p where g: "generator_iter t s = Inr (s', p)"
    by (cases "generator_iter t s") (auto split: sum.splits)
  note f = generator_iter_frame [OF g]
  show ?case
  proof (cases p)
    case Return
    then show ?thesis using Cons.prems f by (simp add: g)
  next
    case (Yield bytes)
    then obtain reqs' where "generator ts s' = Inr (s1, reqs')"
      using Cons.prems by (auto simp: g split: sum.splits)
    then show ?thesis using Cons.IH [of s' reqs'] f by simp
  qed
qed

lemma sub_session_eq:
  assumes "generator (ticks i) (s\<lparr>audio_input := []\<rparr>) = Inr (s1, reqs)"
  shows "sub_session i s =
     Inr (fst (end_of_session (fst (listen_print_loop (responses i) s1))),
          NewRequest (STREAMING_LIMIT * restart_counter s)
            # fst (snd (listen_print_loop (responses i) s1))
            @ snd (end_of_session (fst (listen_print_loop (responses i) s1))))"
  using assms by (simp add: sub_session_def Let_def split: prod.splits)

lemma keyword_response:
  assumes "results resp = res # others" "alternatives res = alt # alts" "is_final res"
    "end_time_ms (end_time res) < STREAMING_LIMIT - WORKAROUND_WINDOW"
    "stop_keyword (transcript alt)"
  shows "listen_print_loop (resp # rest) s =
     (s\<lparr>result_end_time := end_time_ms (end_time res),
        is_final_end_time := end_time_ms (end_time res),
        last_transcript_was_final := True, closed := True\<rparr>,
      [Final (end_time_ms (end_time res) - bridging_offset s
                + STREAMING_LIMIT * restart_counter s) (transcript alt), Exiting],
      rest)"
  using assms by (simp add: handle_response_alt Let_def)

subsection \<open>The stop keyword\<close>

text \<open>
  Claim C4, amended. Whenever a final result whose in-session end time is below
  \<open>STREAMING_LIMIT - WORKAROUND_WINDOW\<close> carries a transcript that contains \<^verbatim>\<open>exit\<close> or
  \<^verbatim>\<open>quit\<close> as a whole word in any mix of cases, and no earlier response of the
  sub-session has closed the stream, the run ends with that transcript: the transcript and
  the exit notice are the last things written, the state is closed, the responses after it
  stay unread, and the sub-sessions after it are never started.
\<close>

theorem stop_keyword_terminates:
  "generator (ticks i) (s\<lparr>audio_input := []\<rparr>) = Inr (s1, reqs) \<and>
   responses i = pre @ resp # rest \<and> \<not> closed (fst (listen_print_loop pre s1)) \<and>
   results resp = res # others \<and> alternatives res = alt # alts \<and> is_final res \<and>
   end_time_ms (end_time res) < STREAMING_LIMIT - WORKAROUND_WINDOW \<and>
   stop_keyword (transcript alt) \<longrightarrow>
     snd (snd (listen_print_loop (responses i) s1)) = rest \<and>
     (\<exists>s'. closed s' \<and>
        main_loop (i # unstarted) s =
          Inr (s',
               NewRequest (STREAMING_LIMIT * restart_counter s)
                 # fst (snd (listen_print_loop pre s1))
                 @ [Final (end_time_ms (end_time res) - bridging_offset s1
                             + STREAMING_LIMIT * restart_counter s1) (transcript alt),
                    Exiting],
               unstarted))"
proof (intro impI, elim conjE)
  assume g: "generator (ticks i) (s\<lparr>audio_input := []\<rparr>) = Inr (s1, reqs)"
    and r: "responses i = pre @ resp # rest"
    and p: "\<not> closed (fst (listen_print_loop pre s1))"
    and k: "results resp = res # others" "alternatives res = alt # alts" "is_final res"
      "end_time_ms (end_time res) < STREAMING_LIMIT - WORKAROUND_WINDOW"
      "stop_keyword (transcript alt)"
  let ?sp = "fst (listen_print_loop pre s1)"
  let ?t = "end_time_ms (end_time res)"
  let ?sk = "?sp\<lparr>result_end_time := ?t, is_final_end_time := ?t,
                  last_transcript_was_final := True, closed := True\<rparr>"
  have fr: "bridging_offset ?sp = bridging_offset s1" "restart_counter ?sp = restart_counter s1"
    using listen_print_loop_frame [of pre s1] by simp_all
  have l: "listen_print_loop (responses i) s1 =
      (?sk, fst (snd (listen_print_loop pre s1))
              @ [Final (?t - bridging_offset s1 + STREAMING_LIMIT * restart_counter s1)
                   (transcript alt), Exiting], rest)"
    using listen_print_loop_append [OF p, of "resp # rest"] keyword_response [OF k, of rest ?sp]
    by (simp add: r fr)
  have "\<not> closed s1"
    using p listen_print_loop_closed_mono [of s1 pre] by blast
  then have o: "\<not> closed s"
    using generator_frame [OF g] by simp
  have e: "snd (end_of_session ?sk) = []" "closed (fst (end_of_session ?sk))"
    by (simp_all add: end_of_session_def Let_def)
  have "main_loop (i # unstarted) s =
      Inr (fst (end_of_session ?sk),
           NewRequest (STREAMING_LIMIT * restart_counter s)
             # fst (snd (listen_print_loop pre s1))
             @ [Final (?t - bridging_offset s1 + STREAMING_LIMIT * restart_counter s1)
                  (transcript alt), Exiting],
           unstarted)"
    using o main_loop_closed [OF e(2), of unstarted]
    by (simp add: sub_session_eq [OF g] l e(1))
  then show "snd (snd (listen_print_loop (responses i) s1)) = rest \<and>
     (\<exists>s'. closed s' \<and>
        main_loop (i # unstarted) s =
          Inr (s',
               NewRequest (STREAMING_LIMIT * restart_counter s)
                 # fst (snd (listen_print_loop pre s1))
                 @ [Final (end_time_ms (end_time res) - bridging_offset s1
                             + STREAMING_LIMIT * restart_counter s1) (transcript alt),
                    Exiting],
               unstarted))"
    using e(2) l by auto
qed

theorem stop_keyword_terminates_witness:
  "stop_keyword ''so I Quit'' \<and>
   (\<exists>s'. closed s' \<and>
      main_loop
        [\<lparr>ticks = [one_tick 100 ''a''],
          responses = [single_result False 1 0 ''so'', single_result True 2 0 ''so I Quit'',
                       single_result True 3 0 ''more'']\<rparr>,
         \<lparr>ticks = [one_tick 10100 ''b''], responses = [single_result True 1 0 ''again'']\<rparr>]
        (init 0)
      = Inr (s', [NewRequest 0, Interim 1000 ''so'', Final 2000 ''so I Quit'', Exiting],
             [\<lparr>ticks = [one_tick 10100 ''b''],
               responses = [single_result True 1 0 ''again'']\<rparr>]))"
proof -
  let ?i = "\<lparr>ticks = [one_tick 100 ''a''],
          responses = [single_result False 1 0 ''so'', single_result True 2 0 ''so I Quit'',
                       single_result True 3 0 ''more'']\<rparr>"
  let ?s1 = "(init 0)\<lparr>audio_input := [Some ''a'']\<rparr>"
  have k: "stop_keyword ''so I Quit''"
    by code_simp
  have g: "generator (ticks ?i) ((init 0)\<lparr>audio_input := []\<rparr>) = Inr (?s1, [''a''])"
    by (simp add: one_tick_def generator_iter_def replay_def init_def STREAMING_LIMIT_def)
  have t: "end_time_ms \<lparr>seconds = 1, nanos = 0\<rparr> = 1000"
    "end_time_ms \<lparr>seconds = 2, nanos = 0\<rparr> = 2000"
    by (simp_all add: end_time_ms_def py_int_def)
  have p: "listen_print_loop [single_result False 1 0 ''so''] ?s1
     = (?s1\<lparr>result_end_time := 1000, last_transcript_was_final := False\<rparr>,
        [Interim 1000 ''so''], [])"
    by (simp add: single_result_def handle_response_def t init_def STREAMING_LIMIT_def)
  show ?thesis
    using k g t p stop_keyword_terminates
      [where i = ?i and s = "init 0" and ?s1.0 = ?s1 and reqs = "[''a'']"
         and pre = "[single_result False 1 0 ''so'']"
         and resp = "single_result True 2 0 ''so I Quit''"
         and rest = "[single_result True 3 0 ''more'']"
         and res = "\<lparr>alternatives = [\<lparr>transcript = ''so I Quit''\<rparr>], is_final = True,
                     end_time = \<lparr>seconds = 2, nanos = 0\<rparr>\<rparr>"
         and others = "[]" and alt = "\<lparr>transcript = ''so I Quit''\<rparr>" and alts = "[]"
         and unstarted = "[\<lparr>ticks = [one_tick 10100 ''b''],
               responses = [single_result True 1 0 ''again'']\<rparr>]"]
    by (simp add: single_result_def init_def STREAMING_LIMIT_def WORKAROUND_WINDOW_def)
qed

text \<open>
  The claim as first worded, for every final transcript, fails inside the workaround
  window: a final result at 9850 ms with the transcript \<^verbatim>\<open>exit\<close> writes nothing, leaves
  the state open, and the next sub-session starts.
\<close>

theorem stop_keyword_in_window_counterexample:
  "stop_keyword ''exit'' \<and>
   observes_final (single_result True 9 850000000 ''exit'') \<and>
   main_loop
     [\<lparr>ticks = [one_tick 100 ''a''],
       responses = [single_result True 9 850000000 ''exit'']\<rparr>,
      \<lparr>ticks = [one_tick 200 ''b''], responses = [single_result True 1 0 ''again'']\<rparr>]
     (init 0)
   = Inr (\<lparr>closed = False, start_time = 0, restart_counter = 2, audio_input = [],
           last_audio_input = [Some ''b''], result_end_time = 0, is_final_end_time = 1000,
           final_request_end_time = 1000, bridging_offset = 10000,
           last_transcript_was_final = True, new_stream = True\<rparr>,
          [NewRequest 0, Newline, NewRequest 10000, Final 1000 ''again''], [])"
  by code_simp

subsection \<open>The end of a sub-session\<close>

text \<open>
  Claim C7, amended. When the result loop of a sub-session has ended, the step that follows
  sets \<open>final_request_end_time\<close> to \<open>is_final_end_time\<close> if and only if
  \<open>result_end_time\<close> is positive at that moment, that is, if the last result read that
  carried an alternative reported a positive end time, whether it was final or not. In
  every case it resets \<open>result_end_time\<close> to 0, moves \<open>audio_input\<close> into
  \<open>last_audio_input\<close>, empties \<open>audio_input\<close>, adds one to \<open>restart_counter\<close>
  and sets \<open>new_stream\<close>; every sub-session that returns has gone through this step.
\<close>

theorem end_of_sub_session:
  "end_of_session s =
     (s\<lparr>final_request_end_time :=
          (if 0 < result_end_time s then is_final_end_time s else final_request_end_time s),
        result_end_time := 0, last_audio_input := audio_input s, audio_input := [],
        restart_counter := restart_counter s + 1, new_stream := True\<rparr>,
      if last_transcript_was_final s then [] else [Newline]) \<and>
   (sub_session i s = Inr (s', out) \<longrightarrow>
      restart_counter s' = restart_counter s + 1 \<and> new_stream s' \<and> audio_input s' = [] \<and>
      result_end_time s' = 0 \<and>
      (\<exists>s1 reqs. generator (ticks i) (s\<lparr>audio_input := []\<rparr>) = Inr (s1, reqs) \<and>
         s' = fst (end_of_session (fst (listen_print_loop (responses i) s1))) \<and>
         last_audio_input s' = audio_input s1))"
proof -
  have 1: "end_of_session s =
     (s\<lparr>final_request_end_time :=
          (if 0 < result_end_time s then is_final_end_time s else final_request_end_time s),
        result_end_time := 0, last_audio_input := audio_input s, audio_input := [],
        restart_counter := restart_counter s + 1, new_stream := True\<rparr>,
      if last_transcript_was_final s then [] else [Newline])" for s
    by (simp add: end_of_session_def Let_def)
  have 2: "restart_counter s' = restart_counter s + 1 \<and> new_stream s' \<and> audio_input s' = [] \<and>
      result_end_time s' = 0 \<and>
      (\<exists>s1 reqs. generator (ticks i) (s\<lparr>audio_input := []\<rparr>) = Inr (s1, reqs) \<and>
         s' = fst (end_of_session (fst (listen_print_loop (responses i) s1))) \<and>
         last_audio_input s' = audio_input s1)"
    if a: "sub_session i s = Inr (s', out)"
  proof -
    obtain s1 reqs where g: "generator (ticks i) (s\<lparr>audio_input := []\<rparr>) = Inr (s1, reqs)"
      using a by (cases "generator (ticks i) (s\<lparr>audio_input := []\<rparr>)")
        (auto simp: sub_session_def Let_def)
    let ?s2 = "fst (listen_print_loop (responses i) s1)"
    have e: "s' = fst (end_of_session ?s2)"
      using a by (simp add: sub_session_eq [OF g])
    have f: "restart_counter ?s2 = restart_counter s" "audio_input ?s2 = audio_input s1"
      using listen_print_loop_frame [of "responses i" s1] generator_frame [OF g] by simp_all
    show ?thesis
      using g e f by (auto simp: 1)
  qed
  show ?thesis
    using 1 2 by blast
qed

theorem end_of_sub_session_witness:
  "sub_session \<lparr>ticks = [one_tick 100 ''a''], responses = [single_result True 3 0 ''hello'']\<rparr>
     (init 0)
   = Inr (\<lparr>closed = False, start_time = 0, restart_counter = 1, audio_input = [],
           last_audio_input = [Some ''a''], result_end_time = 0, is_final_end_time = 3000,
           final_request_end_time = 3000, bridging_offset = 0,
           last_transcript_was_final = True, new_stream = True\<rparr>,
          [NewRequest 0, Final 3000 ''hello'']) \<and>
   restart_counter (init 0) + 1 = 1 \<and>
   fst (end_of_session ((init 0)\<lparr>result_end_time := 4000, is_final_end_time := 3000\<rparr>))
   = (init 0)\<lparr>final_request_end_time := 3000, result_end_time := 0, is_final_end_time := 3000,
               restart_counter := 1\<rparr>"
proof -
  have h: "sub_session \<lparr>ticks = [one_tick 100 ''a''],
       responses = [single_result True 3 0 ''hello'']\<rparr> (init 0)
   = Inr (\<lparr>closed = False, start_time = 0, restart_counter = 1, audio_input = [],
           last_audio_input = [Some ''a''], result_end_time = 0, is_final_end_time = 3000,
           final_request_end_time = 3000, bridging_offset = 0,
           last_transcript_was_final = True, new_stream = True\<rparr>,
          [NewRequest 0, Final 3000 ''hello''])"
    by code_simp
  show ?thesis
    using h end_of_sub_session
      [where s = "(init 0)\<lparr>result_end_time := 4000, is_final_end_time := 3000\<rparr>"]
      end_of_sub_session
      [where s = "init 0"
         and i = "\<lparr>ticks = [one_tick 100 ''a''],
                   responses = [single_result True 3 0 ''hello'']\<rparr>"]
    by (simp add: init_def)
qed

text \<open>
  The claim as first worded, with the condition that a final result was observed, fails in
  both directions. A sub-session that reads a final result at 3000 ms and then an interim
  result with end time 0 leaves \<open>final_request_end_time\<close> at 0; the sub-session after
  it reads one interim result, at 4000 ms, and sets \<open>final_request_end_time\<close> to 3000.
\<close>

theorem final_observed_counterexample:
  "list_ex observes_final [single_result True 3 0 ''hello'', single_result False 0 0 ''hi''] \<and>
   main_loop
     [\<lparr>ticks = [one_tick 100 ''a''],
       responses = [single_result True 3 0 ''hello'', single_result False 0 0 ''hi'']\<rparr>]
     (init 0)
   = Inr (\<lparr>closed = False, start_time = 0, restart_counter = 1, audio_input = [],
           last_audio_input = [Some ''a''], result_end_time = 0, is_final_end_time = 3000,
           final_request_end_time = 0, bridging_offset = 0,
           last_transcript_was_final = False, new_stream = True\<rparr>,
          [NewRequest 0, Final 3000 ''hello'', Interim 0 ''hi'', Newline], []) \<and>
   \<not> list_ex observes_final [single_result False 4 0 ''more''] \<and>
   main_loop
     [\<lparr>ticks = [one_tick 100 ''a''],
       responses = [single_result True 3 0 ''hello'', single_result False 0 0 ''hi'']\<rparr>,
      \<lparr>ticks = [one_tick 200 ''b''], responses = [single_result False 4 0 ''more'']\<rparr>]
     (init 0)
   = Inr (\<lparr>closed = False, start_time = 0, restart_counter = 2, audio_input = [],
           last_audio_input = [Some ''b''], result_end_time = 0, is_final_end_time = 3000,
           final_request_end_time = 3000, bridging_offset = 10000,
           last_transcript_was_final = False, new_stream = True\<rparr>,
          [NewRequest 0, Final 3000 ''hello'', Interim 0 ''hi'', Newline,
           NewRequest 10000, Interim 4000 ''more'', Newline], [])"
  by code_simp

section \<open>The global time line across restarts\<close>

subsection \<open>The final transcripts of one result loop\<close>

lemma final_times_append [simp]: "final_times (ps @ qs) = final_times ps @ final_times qs"
  by (induction ps rule: final_times.induct) simp_all

lemma handle_response_final_times:
  "(final_times (fst (snd (handle_response resp s))) = [] \<and>
    is_final_end_time (fst (handle_response resp s)) = is_final_end_time s) \<or>
   final_times (fst (snd (handle_response resp s)))
     = [is_final_end_time (fst (handle_response resp s)) - bridging_offset s
          + STREAMING_LIMIT * restart_counter s]"
  by (simp add: handle_response_def Let_def split: list.splits)

lemma listen_print_loop_no_final:
  "final_times (fst (snd (listen_print_loop rs s))) = [] \<Longrightarrow>
     is_final_end_time (fst (listen_print_loop rs s)) = is_final_end_time s"
proof (induction rs arbitrary: s)
  case Nil
  show ?case by simp
next
  case (Cons resp rest)
  obtain s' out b where h: "handle_response resp s = (s', out, b)"
    by (cases "handle_response resp s") auto
  have o: "final_times out = []"
    using Cons.prems by (cases b) (auto simp: h split: prod.splits)
  then have i: "is_final_end_time s' = is_final_end_time s"
    using handle_response_final_times [of resp s] by (simp add: h)
  show ?case
  proof (cases b)
    case True
    then show ?thesis by (simp add: h i)
  next
    case False
    then have "final_times (fst (snd (listen_print_loop rest s'))) = []"
      using Cons.prems by (auto simp: h split: prod.splits)
    then show ?thesis
      using Cons.IH [of s'] False by (auto simp: h i split: prod.splits)
  qed
qed

lemma listen_print_loop_last_final:
  "final_times (fst (snd (listen_print_loop rs s))) \<noteq> [] \<Longrightarrow>
     last (final_times (fst (snd (listen_print_loop rs s))))
       = is_final_end_time (fst (listen_print_loop rs s)) - bridging_offset s
           + STREAMING_LIMIT * restart_counter s"
proof (induction rs arbitrary: s)
  case Nil
  then show ?case by simp
next
  case (Cons resp rest)
  obtain s' out b where h: "handle_response resp s = (s', out, b)"
    by (cases "handle_response resp s") auto
  have f: "bridging_offset s' = bridging_offset s" "restart_counter s' = restart_counter s"
    using handle_response_frame [of resp s] by (simp_all add: h)
  have o: "(final_times out = [] \<and> is_final_end_time s' = is_final_end_time s) \<or>
      final_times out
        = [is_final_end_time s' - bridging_offset s + STREAMING_LIMIT * restart_counter s]"
    using handle_response_final_times [of resp s] by (simp add: h)
  show ?case
  proof (cases b)
    case True
    then show ?thesis using Cons.prems o by (auto simp: h)
  next
    case False
    let ?l = "listen_print_loop rest s'"
    have e: "listen_print_loop (resp # rest) s = (fst ?l, out @ fst (snd ?l), snd (snd ?l))"
      using False by (simp add: h split: prod.splits)
    have p: "final_times out @ final_times (fst (snd ?l)) \<noteq> []"
      using Cons.prems unfolding e by simp
    show ?thesis
      unfolding e fst_conv snd_conv final_times_append
    proof (cases "final_times (fst (snd ?l)) = []")
      case True
      then have "is_final_end_time (fst ?l) = is_final_end_time s'"
        by (rule listen_print_loop_no_final)
      then show "last (final_times out @ final_times (fst (snd ?l)))
          = is_final_end_time (fst ?l) - bridging_offset s
              + STREAMING_LIMIT * restart_counter s"
        using p o True by auto
    next
      case False
      then show "last (final_times out @ final_times (fst (snd ?l)))
          = is_final_end_time (fst ?l) - bridging_offset s
              + STREAMING_LIMIT * restart_counter s"
        using Cons.IH [OF False] by (simp add: f)
    qed
  qed
qed

lemma listen_print_loop_Cons:
  "listen_print_loop (resp # rest) s =
     (if snd (snd (handle_response resp s))
      then (fst (handle_response resp s), fst (snd (handle_response resp s)), rest)
      else (fst (listen_print_loop rest (fst (handle_response resp s))),
            fst (snd (handle_response resp s))
              @ fst (snd (listen_print_loop rest (fst (handle_response resp s)))),
            snd (snd (listen_print_loop rest (fst (handle_response resp s))))))"
  by (cases "handle_response resp s") (auto split: prod.splits)

lemma handle_response_final_end_times:
  "final_times (fst (snd (handle_response resp s)))
     = map (\<lambda>t. t - bridging_offset s + STREAMING_LIMIT * restart_counter s)
         (final_end_times [resp])"
  "final_end_times (resp # rest)
     = final_end_times [resp]
         @ (if snd (snd (handle_response resp s)) then [] else final_end_times rest)"
  by (simp_all add: handle_response_def Let_def split: list.splits)

lemma listen_print_loop_final_times:
  "final_times (fst (snd (listen_print_loop rs s)))
     = map (\<lambda>t. t - bridging_offset s + STREAMING_LIMIT * restart_counter s)
         (final_end_times rs)"
proof (induction rs arbitrary: s)
  case Nil
  show ?case by simp
next
  case (Cons resp rest)
  let ?h = "handle_response resp s"
  have f: "bridging_offset (fst ?h) = bridging_offset s"
    "restart_counter (fst ?h) = restart_counter s"
    by (simp_all add: handle_response_frame)
  show ?case
  proof (cases "snd (snd ?h)")
    case True
    then show ?thesis
      unfolding listen_print_loop_Cons handle_response_final_end_times(2) [of resp rest s]
      by (simp add: handle_response_final_end_times(1))
  next
    case False
    then show ?thesis
      unfolding listen_print_loop_Cons handle_response_final_end_times(2) [of resp rest s]
      using Cons.IH [of "fst ?h"] by (simp add: handle_response_final_end_times(1) f)
  qed
qed

lemma final_end_times_bound:
  "t \<in> set (final_end_times rs) \<Longrightarrow> t < STREAMING_LIMIT - WORKAROUND_WINDOW"
  by (induction rs) (auto split: list.splits if_splits)

lemma listen_print_loop_is_final:
  assumes "final_end_times rs \<noteq> []"
  shows "is_final_end_time (fst (listen_print_loop rs s)) = last (final_end_times rs)"
proof -
  let ?sh = "\<lambda>t. t - bridging_offset s + STREAMING_LIMIT * restart_counter s"
  have ne: "final_times (fst (snd (listen_print_loop rs s))) \<noteq> []"
    using assms by (simp add: listen_print_loop_final_times)
  have "last (map ?sh (final_end_times rs))
      = is_final_end_time (fst (listen_print_loop rs s)) - bridging_offset s
          + STREAMING_LIMIT * restart_counter s"
    using listen_print_loop_last_final [OF ne] by (simp only: listen_print_loop_final_times)
  then show ?thesis
    using assms by (simp add: last_map)
qed

lemma sorted_final_times:
  assumes "sorted (final_end_times rs)"
  shows "sorted (final_times (fst (snd (listen_print_loop rs s))))"
  using assms by (simp add: listen_print_loop_final_times sorted_map sorted_wrt_iff_nth_less)

subsection \<open>The bridging offset after the producer\<close>

lemma replay_result:
  assumes "replay s = Inr (sr, data)"
  shows "(\<not> new_stream sr \<or> last_audio_input sr = [])"
    and "new_stream sr = (new_stream s \<and> last_audio_input s = [])"
proof -
  have "(new_stream s \<and> last_audio_input s \<noteq> [] \<and> \<not> new_stream sr
         \<and> last_audio_input sr = last_audio_input s)
      \<or> ((\<not> new_stream s \<or> last_audio_input s = []) \<and> sr = s)"
  proof (cases "new_stream s \<and> last_audio_input s \<noteq> []")
    case True
    then show ?thesis using assms replay_eq [of s] by (auto simp: Let_def)
  next
    case False
    then show ?thesis using assms replay_skip [of s] by auto
  qed
  then show "\<not> new_stream sr \<or> last_audio_input sr = []"
    and "new_stream sr = (new_stream s \<and> last_audio_input s = [])"
    by auto
qed

lemma generator_iter_bridging:
  assumes "generator_iter t s = Inr (s', p)"
  shows "(p = Return \<and> bridging_offset s' = bridging_offset s \<and> new_stream s' = new_stream s
          \<and> last_audio_input s' = last_audio_input s)
       \<or> (\<exists>sr data. replay s = Inr (sr, data) \<and> bridging_offset s' = bridging_offset sr
             \<and> new_stream s' = new_stream sr \<and> last_audio_input s' = last_audio_input sr)"
proof -
  obtain sr data where r: "replay s = Inr (sr, data)"
    using replay_total by blast
  show ?thesis
    using assms
    by (auto simp: generator_iter_def r Let_def
        split: if_splits option.splits prod.splits sum.splits dest!: drain_frame)
qed

lemma generator_no_replay:
  "\<not> new_stream s \<or> last_audio_input s = [] \<Longrightarrow> generator ts s = Inr (s1, reqs) \<Longrightarrow>
     bridging_offset s1 = bridging_offset s"
proof (induction ts arbitrary: s reqs)
  case Nil
  then show ?case by simp
next
  case (Cons t ts)
  from Cons.prems(2) obtain s' p where g: "generator_iter t s = Inr (s', p)"
    by (cases "generator_iter t s") (auto split: sum.splits)
  have r: "replay s = Inr (s, [])"
    using Cons.prems(1) by (rule replay_skip)
  have k: "bridging_offset s' = bridging_offset s"
    "\<not> new_stream s' \<or> last_audio_input s' = []"
    using generator_iter_bridging [OF g] Cons.prems(1) by (auto simp: r)
  show ?case
  proof (cases p)
    case Return
    then show ?thesis using Cons.prems(2) k by (simp add: g)
  next
    case (Yield bytes)
    then obtain reqs' where "generator ts s' = Inr (s1, reqs')"
      using Cons.prems(2) by (auto simp: g split: sum.splits)
    then show ?thesis using Cons.IH [OF k(2)] k(1) by simp
  qed
qed

lemma generator_bridging:
  assumes "generator ts s = Inr (s1, reqs)"
  shows "bridging_offset s1 = bridging_offset s
       \<or> (\<exists>sr data. replay s = Inr (sr, data) \<and> bridging_offset s1 = bridging_offset sr)"
proof (cases ts)
  case Nil
  then show ?thesis using assms by simp
next
  case (Cons t ts')
  from assms obtain s' p where g: "generator_iter t s = Inr (s', p)"
    by (cases "generator_iter t s") (auto simp: Cons split: sum.splits)
  show ?thesis
  proof (cases p)
    case Return
    then have "s1 = s'" using assms by (simp add: Cons g)
    then show ?thesis using generator_iter_bridging [OF g] by auto
  next
    case (Yield bytes)
    then obtain reqs' where g': "generator ts' s' = Inr (s1, reqs')"
      using assms by (auto simp: Cons g split: sum.splits)
    from generator_iter_bridging [OF g] Yield
    obtain sr data where r: "replay s = Inr (sr, data)" "bridging_offset s' = bridging_offset sr"
      "new_stream s' = new_stream sr" "last_audio_input s' = last_audio_input sr"
      by auto
    have "\<not> new_stream s' \<or> last_audio_input s' = []"
      using replay_result(1) [OF r(1)] r(3,4) by simp
    then have "bridging_offset s1 = bridging_offset s'"
      using g' by (rule generator_no_replay)
    then show ?thesis using r by auto
  qed
qed

text \<open>How far the replay step can raise the bridging offset.\<close>

lemma chunkTime_bounds:
  fixes n :: nat
  assumes "0 < n"
  defines "c \<equiv> fl (10000 / of_nat n)"
  shows "0 < c" "of_nat n * c \<le> 10000 * (1 + unit_roundoff)"
    "10000 * (1 - unit_roundoff) \<le> of_nat n * c"
    "c \<le> 10000 / of_nat n * (1 + unit_roundoff)"
proof -
  let ?q = "10000 / of_nat n :: rat"
  have np: "(0 :: rat) < of_nat n" using assms(1) by simp
  have q: "0 < ?q" using np by simp
  have nq: "of_nat n * ?q = 10000" using np by simp
  show "0 < c" unfolding c_def using q by (rule fl_pos)
  have up: "c \<le> ?q * (1 + unit_roundoff)"
    unfolding c_def using q by (intro fl_upper) simp
  then show "c \<le> 10000 / of_nat n * (1 + unit_roundoff)" .
  have lo: "?q * (1 - unit_roundoff) \<le> c"
    unfolding c_def using q by (intro fl_lower) simp
  have "of_nat n * c \<le> of_nat n * (?q * (1 + unit_roundoff))"
    using up np by (simp only: mult_le_cancel_left_pos)
  also have "\<dots> = (of_nat n * ?q) * (1 + unit_roundoff)"
    by (simp only: mult.assoc)
  finally show "of_nat n * c \<le> 10000 * (1 + unit_roundoff)"
    unfolding nq .
  have "(of_nat n * ?q) * (1 - unit_roundoff) = of_nat n * (?q * (1 - unit_roundoff))"
    by (simp only: mult.assoc)
  also have "\<dots> \<le> of_nat n * c"
    using lo np by (simp only: mult_le_cancel_left_pos)
  finally show "10000 * (1 - unit_roundoff) \<le> of_nat n * c"
    unfolding nq .
qed

lemma start_times_chunkTime:
  fixes a :: int and c :: rat
  assumes c: "0 < c" and a: "0 \<le> a" "a \<le> 10000"
  defines "k \<equiv> py_round (fl (py_float a / c))"
  shows "of_int a * (1 - unit_roundoff) - c / 2 \<le> of_int k * c"
    "of_int k * c \<le> of_int a * (1 + unit_roundoff) + c / 2"
proof -
  define z :: rat where "z = of_int a / c"
  have "\<bar>a\<bar> < 2 ^ 53" using a by simp
  then have pa: "py_float a = of_int a" by (rule py_float_small)
  have z0: "0 \<le> z" using a(1) c by (simp add: z_def)
  have zc: "z * c = of_int a" using c by (simp add: z_def)
  have k: "k = py_round (fl z)" by (simp add: k_def pa z_def)
  have 1: "z * (1 - unit_roundoff) \<le> fl z" using z0 by (rule fl_lower)
  have 2: "fl z \<le> z * (1 + unit_roundoff)" using z0 by (rule fl_upper)
  have 3: "fl z - 1 / 2 \<le> of_int k" "of_int k \<le> fl z + 1 / 2"
    unfolding k by (rule py_round_bounds)+
  have "z * (1 - unit_roundoff) - 1 / 2 \<le> of_int k"
    using 1 3(1) by linarith
  then have "(z * (1 - unit_roundoff) - 1 / 2) * c \<le> of_int k * c"
    using c by (simp only: mult_le_cancel_right_pos)
  moreover have "(z * (1 - unit_roundoff) - 1 / 2) * c
      = (z * c) * (1 - unit_roundoff) - c / 2"
    by (simp add: algebra_simps)
  ultimately show "of_int a * (1 - unit_roundoff) - c / 2 \<le> of_int k * c"
    unfolding zc by simp
  have "of_int k \<le> z * (1 + unit_roundoff) + 1 / 2"
    using 2 3(2) by linarith
  then have "of_int k * c \<le> (z * (1 + unit_roundoff) + 1 / 2) * c"
    using c by (simp only: mult_le_cancel_right_pos)
  moreover have "(z * (1 + unit_roundoff) + 1 / 2) * c
      = (z * c) * (1 + unit_roundoff) + c / 2"
    by (simp add: algebra_simps)
  ultimately show "of_int k * c \<le> of_int a * (1 + unit_roundoff) + c / 2"
    unfolding zc by simp
qed

lemma offset_float_upper:
  fixes m :: int and c M :: rat
  assumes c: "0 < c" and m: "0 \<le> m" and M: "of_int m * c \<le> M" "M \<le> 20000"
  shows "of_int (py_round (fl (py_float m * c))) \<le> M + 1 / 2 + 60000 * unit_roundoff"
proof -
  let ?u = unit_roundoff
  let ?P = "of_int m * c :: rat"
  have m0: "(0 :: rat) \<le> of_int m" using m by simp
  have P0: "0 \<le> ?P" using m0 c by simp
  have pm: "py_float m \<le> of_int m * (1 + ?u)"
    unfolding py_float_def using m0 by (rule fl_upper)
  have pm0: "0 \<le> py_float m"
    using m by (rule py_float_nonneg)
  have "py_float m * c \<le> (of_int m * (1 + ?u)) * c"
    using pm c by (simp only: mult_le_cancel_right_pos)
  also have "\<dots> = ?P * (1 + ?u)"
    by (simp add: algebra_simps)
  finally have 1: "py_float m * c \<le> ?P * (1 + ?u)" .
  have 0: "0 \<le> py_float m * c" using pm0 c by simp
  have "fl (py_float m * c) \<le> (py_float m * c) * (1 + ?u)"
    using 0 by (rule fl_upper)
  also have "\<dots> \<le> (?P * (1 + ?u)) * (1 + ?u)"
    by (rule mult_right_mono [OF 1]) (simp add: unit_roundoff_def)
  also have "\<dots> = ?P + ?P * (2 * ?u + ?u * ?u)"
    by (simp add: algebra_simps)
  also have "\<dots> \<le> ?P + 20000 * (2 * ?u + ?u * ?u)"
  proof -
    have "?P \<le> 20000" using M by linarith
    then have "?P * (2 * ?u + ?u * ?u) \<le> 20000 * (2 * ?u + ?u * ?u)"
      by (rule mult_right_mono) (simp add: unit_roundoff_def)
    then show ?thesis by simp
  qed
  also have "\<dots> \<le> M + 60000 * ?u"
    using M(1) by (simp add: unit_roundoff_def)
  finally have "fl (py_float m * c) \<le> M + 60000 * ?u" .
  moreover have "of_int (py_round (fl (py_float m * c))) \<le> fl (py_float m * c) + 1 / 2"
    by (rule py_round_bounds)
  ultimately show ?thesis by linarith
qed

lemma offset_float_nonpos:
  fixes m :: int and c :: rat
  assumes "0 < c" "m \<le> 0"
  shows "py_round (fl (py_float m * c)) \<le> 0"
proof -
  have "(of_int m :: rat) \<le> 0" using assms(2) by simp
  then have "py_float m \<le> 0"
    unfolding py_float_def by (rule fl_nonpos)
  then have "py_float m * c \<le> 0"
    using assms(1) by (simp add: mult_le_0_iff)
  then have "fl (py_float m * c) \<le> 0"
    by (rule fl_nonpos)
  then have "fl (py_float m * c) \<le> of_int 0"
    by simp
  then show ?thesis by (rule py_round_le_int)
qed

lemma offset_float_nonneg:
  fixes m :: int and c :: rat
  assumes "0 < c" "0 \<le> m"
  shows "0 \<le> py_round (fl (py_float m * c))"
proof -
  have "0 \<le> py_float m" using assms(2) by (rule py_float_nonneg)
  then have "0 \<le> py_float m * c" using assms(1) by simp
  then have "0 \<le> fl (py_float m * c)" by (rule fl_nonneg)
  then show ?thesis by (rule py_round_nonneg)
qed

lemma slack_integral:
  fixes D :: int and n :: nat
  assumes n: "0 < n"
    and D: "of_int D \<le> 10000 / of_nat n / 2 + 1 / 2 + 100000 * unit_roundoff"
  shows "(of_int D :: rat) \<le> (10000 / of_nat n + 1) / 2"
proof (cases "D \<le> 0")
  case True
  then have "(of_int D :: rat) \<le> 0" by simp
  moreover have "(0 :: rat) \<le> (10000 / of_nat n + 1) / 2" by simp
  ultimately show ?thesis by linarith
next
  case False
  define N :: rat where "N = of_nat n"
  define P :: rat where "P = of_int (D * int n)"
  have N: "0 < N" using n by (simp add: N_def)
  have P: "P = of_int D * N" by (simp add: P_def N_def)
  have "of_int D * N \<le> (10000 / N / 2 + 1 / 2 + 100000 * unit_roundoff) * N"
    using D N unfolding N_def by (simp only: mult_le_cancel_right_pos)
  also have "\<dots> = 5000 + N / 2 + 100000 * unit_roundoff * N"
    using N by (simp add: field_simps)
  finally have 1: "P \<le> 5000 + N / 2 + 100000 * unit_roundoff * N"
    unfolding P .
  have "(1 :: rat) \<le> of_int D" using False by simp
  then have "1 * N \<le> of_int D * N"
    using N by (simp only: mult_le_cancel_right_pos)
  then have 2: "N \<le> P" unfolding P by simp
  have 3: "N < 10001"
    using 1 2 by (simp add: unit_roundoff_def)
  have "2 * P < 10000 + N + 1"
    using 1 3 by (simp add: unit_roundoff_def)
  then have "(of_int (2 * (D * int n)) :: rat) < of_int (10000 + int n + 1)"
    by (simp add: P_def N_def)
  then have "2 * (D * int n) < 10000 + int n + 1"
    by (simp only: of_int_less_iff)
  then have "2 * (D * int n) \<le> 10000 + int n"
    by simp
  then have "(of_int (2 * (D * int n)) :: rat) \<le> of_int (10000 + int n)"
    by (simp only: of_int_le_iff)
  then have "2 * P \<le> 10000 + N"
    by (simp add: P_def N_def)
  then have "P \<le> (10000 + N) / 2"
    by simp
  then have "of_int D * N \<le> (10000 + N) / 2"
    unfolding P .
  moreover have "(10000 / N + 1) / 2 * N = (10000 + N) / 2"
    using N by (simp add: field_simps)
  ultimately have "of_int D * N \<le> (10000 / N + 1) / 2 * N"
    by (simp only:)
  then show ?thesis
    using N unfolding N_def by (simp only: mult_le_cancel_right_pos)
qed

lemma replay_offset:
  assumes "new_stream s" "last_audio_input s \<noteq> []" "replay s = Inr (sr, data)"
  shows "bridging_offset sr
     = py_round (fl (py_float
         (int (length (last_audio_input s))
          - py_round (fl (py_float (final_request_end_time s
                                     - bridging_offset (clamp_bridging s))
                          / fl (10000 / of_nat (length (last_audio_input s))))))
         * fl (10000 / of_nat (length (last_audio_input s)))))"
  using assms(3) replay_eq [OF assms(1,2)]
  by (auto simp: Let_def py_mul_def STREAMING_LIMIT_def)

lemma replay_bridging_upper:
  assumes "new_stream s" "last_audio_input s \<noteq> []" "0 \<le> bridging_offset s"
    "final_request_end_time s \<le> STREAMING_LIMIT"
    "replay s = Inr (sr, data)"
  shows "of_int (bridging_offset sr)
           \<le> of_int STREAMING_LIMIT - of_int (final_request_end_time s)
              + of_int (bridging_offset s)
              + (chunkDurationMs (length (last_audio_input s)) + 1) / 2"
proof -
  define n where "n = length (last_audio_input s)"
  define q :: rat where "q = 10000 / of_nat n"
  define c where "c = fl (10000 / of_nat n)"
  define a where "a = final_request_end_time s - bridging_offset (clamp_bridging s)"
  define k where "k = py_round (fl (py_float a / c))"
  define m where "m = int n - k"
  define B where "B = bridging_offset sr"
  have n: "0 < n" using assms(2) by (simp add: n_def)
  have B: "B = py_round (fl (py_float m * c))"
    unfolding B_def m_def k_def a_def c_def n_def
    using assms(1,2,5) by (rule replay_offset)
  have a: "0 \<le> a" "a \<le> 10000"
    "final_request_end_time s - bridging_offset s \<le> a"
    using assms(3,4)
    by (simp_all add: a_def clamp_bridging_eq min_def max_def STREAMING_LIMIT_def)
  have c: "0 < c" "of_nat n * c \<le> 10000 * (1 + unit_roundoff)"
    "c \<le> q * (1 + unit_roundoff)"
    unfolding c_def q_def using chunkTime_bounds [OF n] by simp_all
  have q: "0 < q" "q \<le> 10000"
  proof -
    have "(1 :: rat) \<le> of_nat n" using n by simp
    then show "0 < q" "q \<le> 10000"
      by (simp_all add: q_def field_simps)
  qed
  have ra: "(0 :: rat) \<le> of_int a" "(of_int a :: rat) \<le> 10000"
  proof -
    show "(0 :: rat) \<le> of_int a" using a(1) by simp
    have "(of_int a :: rat) \<le> of_int 10000"
      using a(2) by (simp only: of_int_le_iff)
    then show "(of_int a :: rat) \<le> 10000" by simp
  qed
  define sl where "sl = (q + 1) / 2"
  have main: "of_int B \<le> 10000 - of_int a + sl"
  proof (cases "0 \<le> m")
    case False
    then have "m \<le> 0" by simp
    then have "B \<le> 0"
      unfolding B using c(1) by (intro offset_float_nonpos)
    then have "(of_int B :: rat) \<le> 0" by simp
    moreover have "0 \<le> sl" using q(1) by (simp add: sl_def)
    ultimately show ?thesis using ra(2) by linarith
  next
    case True
    define M :: rat where "M = 10000 - of_int a + q / 2 + 25000 * unit_roundoff"
    have kc: "of_int a * (1 - unit_roundoff) - c / 2 \<le> of_int k * c"
      unfolding k_def using c(1) a(1,2) by (rule start_times_chunkTime)
    have mc: "of_int m * c = of_nat n * c - of_int k * c"
      by (simp add: m_def algebra_simps)
    have "of_int m * c \<le> 10000 * (1 + unit_roundoff)
        - of_int a * (1 - unit_roundoff) + q * (1 + unit_roundoff) / 2"
      unfolding mc using kc c(2,3) by linarith
    also have "\<dots> \<le> M"
      using ra q by (simp add: M_def unit_roundoff_def)
    finally have 1: "of_int m * c \<le> M" .
    have 2: "M \<le> 20000"
      using ra q by (simp add: M_def unit_roundoff_def)
    have "of_int B \<le> M + 1 / 2 + 60000 * unit_roundoff"
      unfolding B using c(1) True 1 2 by (rule offset_float_upper)
    then have "of_int B - (10000 - of_int a)
        \<le> q / 2 + 1 / 2 + 100000 * unit_roundoff"
      by (simp add: M_def unit_roundoff_def)
    then have "of_int (B - (10000 - a))
        \<le> 10000 / of_nat n / 2 + 1 / 2 + 100000 * unit_roundoff"
      by (simp add: q_def)
    then have "(of_int (B - (10000 - a)) :: rat) \<le> (10000 / of_nat n + 1) / 2"
      using n by (intro slack_integral)
    moreover have "(of_int (B - (10000 - a)) :: rat) = of_int B - (10000 - of_int a)"
      by simp
    ultimately have "of_int B - (10000 - of_int a) \<le> sl"
      by (simp only: sl_def q_def)
    then show ?thesis
      by linarith
  qed
  have "(of_int (final_request_end_time s - bridging_offset s) :: rat) \<le> of_int a"
    using a(3) by (simp only: of_int_le_iff)
  then have "(of_int (final_request_end_time s) :: rat) - of_int (bridging_offset s)
      \<le> of_int a"
    by simp
  then have "of_int B \<le> 10000 - of_int (final_request_end_time s)
      + of_int (bridging_offset s) + sl"
    using main by linarith
  then show ?thesis
    by (simp add: B_def sl_def q_def n_def chunkDurationMs_def STREAMING_LIMIT_def)
qed

lemma end_of_session_fields:
  "bridging_offset (fst (end_of_session s)) = bridging_offset s"
  "is_final_end_time (fst (end_of_session s)) = is_final_end_time s"
  "restart_counter (fst (end_of_session s)) = restart_counter s + 1"
  "last_audio_input (fst (end_of_session s)) = audio_input s"
  "new_stream (fst (end_of_session s))"
  "final_times (snd (end_of_session s)) = []"
  by (simp_all add: end_of_session_def Let_def)

lemma sub_session_final_times:
  assumes "sub_session i s = Inr (s', out)"
  shows "\<exists>s1 reqs. generator (ticks i) (s\<lparr>audio_input := []\<rparr>) = Inr (s1, reqs) \<and>
     s' = fst (end_of_session (fst (listen_print_loop (responses i) s1))) \<and>
     final_times out = final_times (fst (snd (listen_print_loop (responses i) s1)))"
proof -
  obtain s1 reqs where g: "generator (ticks i) (s\<lparr>audio_input := []\<rparr>) = Inr (s1, reqs)"
    using assms by (cases "generator (ticks i) (s\<lparr>audio_input := []\<rparr>)")
      (auto simp: sub_session_def Let_def)
  show ?thesis
    using assms g by (auto simp: sub_session_eq [OF g] end_of_session_fields)
qed

lemma restart_bound:
  assumes 1: "sub_session i1 s = Inr (sA, out1)"
    and 2: "sub_session i2 sA = Inr (sB, out2)"
    and ne: "final_end_times (responses i1) \<noteq> []"
    and adv: "final_request_end_time sA = is_final_end_time sA"
    and b0: "0 \<le> bridging_offset sA"
    and au: "last_audio_input sA \<noteq> []"
  shows "final_times out2
           = map (\<lambda>t. t - bridging_offset sB + STREAMING_LIMIT * restart_counter sA)
               (final_end_times (responses i2))"
    and "of_int (last (final_times out1))
           \<le> of_int (STREAMING_LIMIT * restart_counter sA - bridging_offset sB)
              + (chunkDurationMs (length (last_audio_input sA)) + 1) / 2"
proof -
  from sub_session_final_times [OF 1] obtain s1 reqs1
    where g1: "generator (ticks i1) (s\<lparr>audio_input := []\<rparr>) = Inr (s1, reqs1)"
      and sA: "sA = fst (end_of_session (fst (listen_print_loop (responses i1) s1)))"
      and o1: "final_times out1 = final_times (fst (snd (listen_print_loop (responses i1) s1)))"
    by blast
  from sub_session_final_times [OF 2] obtain s3 reqs2
    where g2: "generator (ticks i2) (sA\<lparr>audio_input := []\<rparr>) = Inr (s3, reqs2)"
      and sB: "sB = fst (end_of_session (fst (listen_print_loop (responses i2) s3)))"
      and o2: "final_times out2 = final_times (fst (snd (listen_print_loop (responses i2) s3)))"
    by blast
  let ?s2 = "fst (listen_print_loop (responses i1) s1)"
  let ?f = "is_final_end_time sA"
  have fr1: "bridging_offset ?s2 = bridging_offset s1" "restart_counter ?s2 = restart_counter s1"
    using listen_print_loop_frame [of "responses i1" s1] by simp_all
  have A: "bridging_offset sA = bridging_offset s1" "restart_counter sA = restart_counter s1 + 1"
    "?f = is_final_end_time ?s2" "new_stream sA"
    by (simp_all add: sA end_of_session_fields fr1)
  have ne1: "final_times (fst (snd (listen_print_loop (responses i1) s1))) \<noteq> []"
    using ne by (simp add: listen_print_loop_final_times)
  have last1: "last (final_times out1)
      = ?f - bridging_offset sA + STREAMING_LIMIT * restart_counter sA - STREAMING_LIMIT"
    using listen_print_loop_last_final [OF ne1] by (simp add: o1 A algebra_simps)
  have "?f = last (final_end_times (responses i1))"
    using listen_print_loop_is_final [OF ne, of s1] by (simp add: A)
  then have "?f \<in> set (final_end_times (responses i1))"
    using ne by simp
  then have fb: "?f < STREAMING_LIMIT - WORKAROUND_WINDOW"
    by (rule final_end_times_bound)
  let ?s4 = "fst (listen_print_loop (responses i2) s3)"
  have fr2: "bridging_offset ?s4 = bridging_offset s3"
    using listen_print_loop_frame [of "responses i2" s3] by simp
  have B: "bridging_offset sB = bridging_offset s3" "restart_counter s3 = restart_counter sA"
    using generator_frame [OF g2] by (simp_all add: sB end_of_session_fields fr2)
  show "final_times out2
      = map (\<lambda>t. t - bridging_offset sB + STREAMING_LIMIT * restart_counter sA)
          (final_end_times (responses i2))"
    by (simp add: o2 listen_print_loop_final_times B)
  let ?sl = "(chunkDurationMs (length (last_audio_input sA)) + 1) / 2"
  have sl: "0 \<le> ?sl"
    by (simp add: chunkDurationMs_def STREAMING_LIMIT_def)
  have up: "of_int (bridging_offset s3)
      \<le> of_int STREAMING_LIMIT - of_int ?f + of_int (bridging_offset sA) + ?sl"
  proof -
    from generator_bridging [OF g2]
    consider "bridging_offset s3 = bridging_offset sA"
      | sr data where "replay (sA\<lparr>audio_input := []\<rparr>) = Inr (sr, data)"
          "bridging_offset s3 = bridging_offset sr"
      by auto
    then show ?thesis
    proof cases
      case 1
      have h: "(of_int ?f :: rat) \<le> of_int STREAMING_LIMIT"
        using fb by (simp add: WORKAROUND_WINDOW_def)
      show ?thesis unfolding 1 using h sl by linarith
    next
      case 2
      have "of_int (bridging_offset sr)
          \<le> of_int STREAMING_LIMIT - of_int (final_request_end_time sA)
             + of_int (bridging_offset sA) + ?sl"
        using replay_bridging_upper [OF _ _ _ _ 2(1)] A(4) au b0 fb adv
        by (simp add: WORKAROUND_WINDOW_def)
      then show ?thesis unfolding 2(2) adv .
    qed
  qed
  have "(of_int (last (final_times out1)) :: rat)
      = of_int ?f - of_int (bridging_offset sA)
        + of_int (STREAMING_LIMIT * restart_counter sA) - of_int STREAMING_LIMIT"
    unfolding last1 by simp
  moreover have "(of_int (STREAMING_LIMIT * restart_counter sA - bridging_offset sB) :: rat)
      = of_int (STREAMING_LIMIT * restart_counter sA) - of_int (bridging_offset s3)"
    unfolding B(1) by simp
  ultimately show "of_int (last (final_times out1))
      \<le> of_int (STREAMING_LIMIT * restart_counter sA - bridging_offset sB) + ?sl"
    using up by linarith
qed

subsection \<open>Bounds on every reachable state\<close>

lemma replay_bridging_nonneg:
  assumes "replay s = Inr (sr, data)" "0 \<le> bridging_offset s"
    "final_request_end_time s < STREAMING_LIMIT - WORKAROUND_WINDOW"
  shows "0 \<le> bridging_offset sr"
proof (cases "new_stream s \<and> last_audio_input s \<noteq> []")
  case False
  then show ?thesis using assms replay_skip [of s] by auto
next
  case True
  define n where "n = length (last_audio_input s)"
  define c where "c = fl (10000 / of_nat n)"
  define a where "a = final_request_end_time s - bridging_offset (clamp_bridging s)"
  define k where "k = py_round (fl (py_float a / c))"
  have n: "0 < n" using True by (simp add: n_def)
  have B: "bridging_offset sr = py_round (fl (py_float (int n - k) * c))"
    unfolding k_def a_def c_def n_def
    using True assms(1) by (intro replay_offset) simp_all
  have a: "0 \<le> a" "a \<le> 9799"
    using assms(2,3)
    by (simp_all add: a_def clamp_bridging_eq min_def max_def STREAMING_LIMIT_def
        WORKAROUND_WINDOW_def)
  have c: "0 < c" "10000 * (1 - unit_roundoff) \<le> of_nat n * c"
    unfolding c_def using chunkTime_bounds [OF n] by simp_all
  have kc: "of_int k * c \<le> of_int a * (1 + unit_roundoff) + c / 2"
    unfolding k_def using c(1) a by (intro start_times_chunkTime) simp_all
  have ra: "(of_int a :: rat) \<le> 9799"
  proof -
    have "(of_int a :: rat) \<le> of_int 9799"
      using a(2) by (simp only: of_int_le_iff)
    then show ?thesis by simp
  qed
  have "k \<le> int n"
  proof (rule ccontr)
    assume "\<not> k \<le> int n"
    then have "int n + 1 \<le> k" by simp
    then have "(of_int (int n + 1) :: rat) \<le> of_int k"
      by (simp only: of_int_le_iff)
    then have "of_int (int n + 1) * c \<le> of_int k * c"
      using c(1) by (simp only: mult_le_cancel_right_pos)
    moreover have "of_int (int n + 1) * c = of_nat n * c + c"
      by (simp add: algebra_simps)
    ultimately have "of_nat n * c + c \<le> of_int a * (1 + unit_roundoff) + c / 2"
      using kc by linarith
    then have "10000 * (1 - unit_roundoff) \<le> of_int a * (1 + unit_roundoff)"
      using c by linarith
    then show False
      using ra by (simp add: unit_roundoff_def)
  qed
  then have "0 \<le> int n - k" by simp
  then show ?thesis
    unfolding B using c(1) by (intro offset_float_nonneg)
qed

lemma generator_inv:
  assumes "generator ts s = Inr (s1, reqs)" "bridging_inv s"
  shows "bridging_inv s1"
proof -
  have "0 \<le> bridging_offset s1"
    using generator_bridging [OF assms(1)] assms(2) replay_bridging_nonneg [of s]
    by (auto simp: bridging_inv_def)
  then show ?thesis
    using generator_frame [OF assms(1)] assms(2) by (simp add: bridging_inv_def)
qed

lemma listen_print_loop_inv:
  assumes "bridging_inv s"
  shows "bridging_inv (fst (listen_print_loop rs s))"
proof -
  have "is_final_end_time (fst (listen_print_loop rs s)) < STREAMING_LIMIT - WORKAROUND_WINDOW"
  proof (cases "final_end_times rs = []")
    case True
    then have "final_times (fst (snd (listen_print_loop rs s))) = []"
      by (simp add: listen_print_loop_final_times)
    then show ?thesis
      using listen_print_loop_no_final [of rs s] assms by (simp add: bridging_inv_def)
  next
    case False
    then have "is_final_end_time (fst (listen_print_loop rs s)) \<in> set (final_end_times rs)"
      using listen_print_loop_is_final [OF False, of s] by simp
    then show ?thesis
      by (rule final_end_times_bound)
  qed
  then show ?thesis
    using listen_print_loop_frame [of rs s] assms by (simp add: bridging_inv_def)
qed

lemma end_of_session_inv: "bridging_inv s \<Longrightarrow> bridging_inv (fst (end_of_session s))"
  by (simp add: bridging_inv_def end_of_session_def Let_def)

lemma sub_session_inv:
  assumes "sub_session i s = Inr (s', out)" "bridging_inv s"
  shows "bridging_inv s'"
proof -
  from sub_session_final_times [OF assms(1)] obtain s1 reqs
    where g: "generator (ticks i) (s\<lparr>audio_input := []\<rparr>) = Inr (s1, reqs)"
      and s': "s' = fst (end_of_session (fst (listen_print_loop (responses i) s1)))"
    by blast
  have "bridging_inv (s\<lparr>audio_input := []\<rparr>)"
    using assms(2) by (simp add: bridging_inv_def)
  then show ?thesis
    unfolding s' by (intro end_of_session_inv listen_print_loop_inv generator_inv [OF g])
qed

lemma main_loop_inv:
  "main_loop ss s = Inr (s', out, rest) \<Longrightarrow> bridging_inv s \<Longrightarrow> bridging_inv s'"
proof (induction ss arbitrary: s out)
  case Nil
  then show ?case by simp
next
  case (Cons i ss)
  show ?case
  proof (cases "closed s")
    case True
    then show ?thesis using Cons.prems by simp
  next
    case False
    then obtain sA o1 where a: "sub_session i s = Inr (sA, o1)"
      using Cons.prems(1) by (cases "sub_session i s") auto
    then obtain o2 where "main_loop ss sA = Inr (s', o2, rest)"
      using Cons.prems(1) False by (auto split: sum.splits)
    then show ?thesis
      using Cons.IH sub_session_inv [OF a Cons.prems(2)] by blast
  qed
qed

lemma init_inv: "bridging_inv (init now)"
  by (simp add: bridging_inv_def init_def STREAMING_LIMIT_def WORKAROUND_WINDOW_def)

lemma listen_print_loop_is_final_nonneg:
  assumes "0 \<le> is_final_end_time s" "\<forall>t\<in>set (final_end_times rs). 0 \<le> t"
  shows "0 \<le> is_final_end_time (fst (listen_print_loop rs s))"
proof (cases "final_end_times rs = []")
  case True
  then have "final_times (fst (snd (listen_print_loop rs s))) = []"
    by (simp add: listen_print_loop_final_times)
  then show ?thesis
    using listen_print_loop_no_final [of rs s] assms(1) by simp
next
  case False
  then have "is_final_end_time (fst (listen_print_loop rs s)) \<in> set (final_end_times rs)"
    using listen_print_loop_is_final [OF False, of s] by simp
  then show ?thesis
    using assms(2) by blast
qed

lemma sub_session_nonneg:
  assumes "sub_session i s = Inr (s', out)"
    and "0 \<le> is_final_end_time s" "0 \<le> final_request_end_time s"
    and "\<forall>t\<in>set (final_end_times (responses i)). 0 \<le> t"
  shows "0 \<le> is_final_end_time s' \<and> 0 \<le> final_request_end_time s'"
proof -
  from sub_session_final_times [OF assms(1)] obtain s1 reqs
    where g: "generator (ticks i) (s\<lparr>audio_input := []\<rparr>) = Inr (s1, reqs)"
      and s': "s' = fst (end_of_session (fst (listen_print_loop (responses i) s1)))"
    by blast
  let ?s2 = "fst (listen_print_loop (responses i) s1)"
  have 1: "0 \<le> is_final_end_time s1" "0 \<le> final_request_end_time s1"
    using generator_frame [OF g] assms(2,3) by simp_all
  have 2: "0 \<le> is_final_end_time ?s2"
    using listen_print_loop_is_final_nonneg [OF 1(1) assms(4)] .
  have 3: "0 \<le> final_request_end_time ?s2"
    using listen_print_loop_frame [of "responses i" s1] 1(2) by simp
  show ?thesis
    using 2 3 by (simp add: s' end_of_session_def Let_def)
qed

lemma main_loop_nonneg:
  "main_loop ss s = Inr (s', out, rest) \<Longrightarrow>
   0 \<le> is_final_end_time s \<Longrightarrow> 0 \<le> final_request_end_time s \<Longrightarrow>
   \<forall>i\<in>set ss. \<forall>t\<in>set (final_end_times (responses i)). 0 \<le> t \<Longrightarrow>
     0 \<le> is_final_end_time s' \<and> 0 \<le> final_request_end_time s'"
proof (induction ss arbitrary: s out)
  case Nil
  then show ?case by simp
next
  case (Cons i ss)
  show ?case
  proof (cases "closed s")
    case True
    then show ?thesis using Cons.prems by simp
  next
    case False
    then obtain sA o1 where a: "sub_session i s = Inr (sA, o1)"
      using Cons.prems(1) by (cases "sub_session i s") auto
    then obtain o2 where m: "main_loop ss sA = Inr (s', o2, rest)"
      using Cons.prems(1) False by (auto split: sum.splits)
    have "0 \<le> is_final_end_time sA \<and> 0 \<le> final_request_end_time sA"
      using sub_session_nonneg [OF a Cons.prems(2,3)] Cons.prems(4) by simp
    then show ?thesis
      using Cons.IH [OF m] Cons.prems(4) by simp
  qed
qed

subsection \<open>The clamped bridging offset\<close>

text \<open>
  Claim C8. When the end time of the last final result of the previous sub-session is not
  negative, the bridging offset after the two clamping statements lies between 0 and that
  end time, whatever the offset and the chunk history were before, and the clamping
  changes no other field. The end time is not negative in any state that a run reaches
  from the initial state, provided no final transcript was written for a negative
  in-session end time; in every such state the clamped offset lies in the interval.
\<close>

theorem clamped_bridging_offset:
  "(0 \<le> final_request_end_time s \<longrightarrow>
      0 \<le> bridging_offset (clamp_bridging s) \<and>
      bridging_offset (clamp_bridging s) \<le> final_request_end_time s \<and>
      final_request_end_time (clamp_bridging s) = final_request_end_time s) \<and>
   (main_loop ss (init now) = Inr (s, out, rest) \<and>
    (\<forall>i\<in>set ss. \<forall>t\<in>set (final_end_times (responses i)). 0 \<le> t) \<longrightarrow>
      0 \<le> bridging_offset (clamp_bridging s) \<and>
      bridging_offset (clamp_bridging s) \<le> final_request_end_time s)"
proof -
  have "0 \<le> final_request_end_time s"
    if "main_loop ss (init now) = Inr (s, out, rest)"
      "\<forall>i\<in>set ss. \<forall>t\<in>set (final_end_times (responses i)). 0 \<le> t"
    using main_loop_nonneg [OF that(1) _ _ that(2)] by (simp add: init_def)
  then show ?thesis
    by (auto simp: clamp_bridging_eq)
qed

theorem clamped_bridging_offset_witness:
  "bridging_offset (clamp_bridging ((init 0)\<lparr>final_request_end_time := 8000,
      bridging_offset := 9000\<rparr>)) = 8000 \<and>
   bridging_offset (clamp_bridging ((init 0)\<lparr>final_request_end_time := 8000,
      bridging_offset := - 5\<rparr>)) = 0 \<and>
   main_loop [\<lparr>ticks = [one_tick 100 ''a'', one_tick 200 ''b''],
               responses = [single_result True 3 0 ''hello'']\<rparr>] (init 0)
   = Inr (\<lparr>closed = False, start_time = 0, restart_counter = 1, audio_input = [],
           last_audio_input = [Some ''a'', Some ''b''], result_end_time = 0,
           is_final_end_time = 3000, final_request_end_time = 3000, bridging_offset = 0,
           last_transcript_was_final = True, new_stream = True\<rparr>,
          [NewRequest 0, Final 3000 ''hello''], []) \<and>
   bridging_offset (clamp_bridging
      \<lparr>closed = False, start_time = 0, restart_counter = 1, audio_input = [],
           last_audio_input = [Some ''a'', Some ''b''], result_end_time = 0,
           is_final_end_time = 3000, final_request_end_time = 3000, bridging_offset = 0,
           last_transcript_was_final = True, new_stream = True\<rparr>) \<le> 3000"
proof -
  let ?i = "\<lparr>ticks = [one_tick 100 ''a'', one_tick 200 ''b''],
             responses = [single_result True 3 0 ''hello'']\<rparr>"
  let ?sA = "\<lparr>closed = False, start_time = 0, restart_counter = 1, audio_input = [],
           last_audio_input = [Some ''a'', Some ''b''], result_end_time = 0,
           is_final_end_time = 3000, final_request_end_time = 3000, bridging_offset = 0,
           last_transcript_was_final = True, new_stream = True\<rparr>"
  have m: "main_loop [?i] (init 0) = Inr (?sA, [NewRequest 0, Final 3000 ''hello''], [])"
    by code_simp
  have e: "final_end_times (responses ?i) = [3000]"
    by code_simp
  have h: "\<forall>i\<in>set [?i]. \<forall>t\<in>set (final_end_times (responses i)). 0 \<le> t"
    unfolding list.set ball_simps e by simp
  have c: "bridging_offset (clamp_bridging ?sA) \<le> final_request_end_time ?sA"
    using clamped_bridging_offset
      [where ss = "[?i]" and now = 0 and s = ?sA
         and out = "[NewRequest 0, Final 3000 ''hello'']" and rest = "[]"] m h
    by blast
  show ?thesis
    using m c clamped_bridging_offset
      [where s = "(init 0)\<lparr>final_request_end_time := 8000, bridging_offset := 9000\<rparr>"]
    by (simp add: init_def clamp_bridging_def)
qed

subsection \<open>Continuity\<close>

text \<open>
  Claim C6, amended. Within a sub-session the global end time of every final transcript is
  its in-session end time plus one constant, so the global end times are non-decreasing
  whenever the in-session end times are. Across a restart, in any state a run reaches: if
  the sub-session before the restart wrote a final transcript, captured audio, and its
  closing step set \<open>final_request_end_time\<close> to the end time of its last final result,
  then every final transcript of the next sub-session has a global end time of at least the
  last global end time before the restart, plus its own in-session end time, minus half a
  chunk duration and half a millisecond. Monotonicity across a restart holds up to this
  rounding slack only.
\<close>

theorem restart_continuity:
  "final_times (fst (snd (listen_print_loop rs s)))
     = map (\<lambda>t. t - bridging_offset s + STREAMING_LIMIT * restart_counter s)
         (final_end_times rs) \<and>
   (sorted (final_end_times rs) \<longrightarrow>
      sorted (final_times (fst (snd (listen_print_loop rs s))))) \<and>
   (main_loop ss (init now) = Inr (s0, out0, rest0) \<and>
    sub_session i1 s0 = Inr (sA, out1) \<and> sub_session i2 sA = Inr (sB, out2) \<and>
    final_end_times (responses i1) \<noteq> [] \<and>
    final_request_end_time sA = is_final_end_time sA \<and> last_audio_input sA \<noteq> [] \<longrightarrow>
      final_times out2
        = map (\<lambda>t. t - bridging_offset sB + STREAMING_LIMIT * restart_counter sA)
            (final_end_times (responses i2)) \<and>
      of_int (last (final_times out1))
        \<le> of_int (STREAMING_LIMIT * restart_counter sA - bridging_offset sB)
           + (chunkDurationMs (length (last_audio_input sA)) + 1) / 2)"
proof -
  have 3: "final_times out2
        = map (\<lambda>t. t - bridging_offset sB + STREAMING_LIMIT * restart_counter sA)
            (final_end_times (responses i2)) \<and>
      of_int (last (final_times out1))
        \<le> of_int (STREAMING_LIMIT * restart_counter sA - bridging_offset sB)
           + (chunkDurationMs (length (last_audio_input sA)) + 1) / 2"
    if a: "main_loop ss (init now) = Inr (s0, out0, rest0)"
      "sub_session i1 s0 = Inr (sA, out1)" "sub_session i2 sA = Inr (sB, out2)"
      "final_end_times (responses i1) \<noteq> []"
      "final_request_end_time sA = is_final_end_time sA" "last_audio_input sA \<noteq> []"
  proof -
    have "bridging_inv s0"
      using main_loop_inv [OF a(1) init_inv] .
    then have "bridging_inv sA"
      using sub_session_inv [OF a(2)] by simp
    then have "0 \<le> bridging_offset sA"
      by (simp add: bridging_inv_def)
    then show ?thesis
      using restart_bound [OF a(2,3,4,5) _ a(6)] by simp
  qed
  show ?thesis
    using 3 listen_print_loop_final_times [of rs s] sorted_final_times [of rs s] by blast
qed

theorem restart_continuity_witness:
  "final_times (fst (snd (listen_print_loop
       [single_result True 1 0 ''one'', single_result False 2 0 ''tw'',
        single_result True 2 500000000 ''two'']
       ((init 0)\<lparr>restart_counter := 1, bridging_offset := 50\<rparr>)))) = [10950, 12450] \<and>
   sorted (final_times (fst (snd (listen_print_loop
       [single_result True 1 0 ''one'', single_result False 2 0 ''tw'',
        single_result True 2 500000000 ''two'']
       ((init 0)\<lparr>restart_counter := 1, bridging_offset := 50\<rparr>))))) \<and>
   final_times [NewRequest 10000, Final 6000 ''again''] = [6000] \<and>
   (3000 :: rat) \<le> of_int (STREAMING_LIMIT * 1 - 5000) + (chunkDurationMs 2 + 1) / 2"
proof -
  let ?i1 = "\<lparr>ticks = [one_tick 100 ''a'', one_tick 200 ''b''],
              responses = [single_result True 3 0 ''hello'']\<rparr>"
  let ?i2 = "\<lparr>ticks = [one_tick 300 ''c''], responses = [single_result True 1 0 ''again'']\<rparr>"
  let ?sA = "\<lparr>closed = False, start_time = 0, restart_counter = 1, audio_input = [],
           last_audio_input = [Some ''a'', Some ''b''], result_end_time = 0,
           is_final_end_time = 3000, final_request_end_time = 3000, bridging_offset = 0,
           last_transcript_was_final = True, new_stream = True\<rparr>"
  let ?sB = "\<lparr>closed = False, start_time = 0, restart_counter = 2, audio_input = [],
           last_audio_input = [Some ''c''], result_end_time = 0,
           is_final_end_time = 1000, final_request_end_time = 1000, bridging_offset = 5000,
           last_transcript_was_final = True, new_stream = True\<rparr>"
  have m: "main_loop [] (init 0) = Inr (init 0, [], [])"
    by simp
  have a: "sub_session ?i1 (init 0) = Inr (?sA, [NewRequest 0, Final 3000 ''hello''])"
    by code_simp
  have b: "sub_session ?i2 ?sA = Inr (?sB, [NewRequest 10000, Final 6000 ''again''])"
    by code_simp
  have e: "final_end_times (responses ?i1) = [3000]"
    "final_end_times [single_result True 1 0 ''one'', single_result False 2 0 ''tw'',
        single_result True 2 500000000 ''two''] = [1000, 2500]"
    by code_simp+
  let ?rs = "[single_result True 1 0 ''one'', single_result False 2 0 ''tw'',
              single_result True 2 500000000 ''two'']"
  let ?s = "(init 0)\<lparr>restart_counter := 1, bridging_offset := 50\<rparr>"
  note t = restart_continuity
      [where ss = "[]" and now = 0 and ?s0.0 = "init 0" and ?out0.0 = "[]" and ?rest0.0 = "[]"
         and ?i1.0 = ?i1 and ?i2.0 = ?i2 and sA = ?sA and sB = ?sB
         and ?out1.0 = "[NewRequest 0, Final 3000 ''hello'']"
         and ?out2.0 = "[NewRequest 10000, Final 6000 ''again'']"
         and rs = ?rs and s = ?s]
  have h: "final_end_times (responses ?i1) \<noteq> []"
    "final_request_end_time ?sA = is_final_end_time ?sA" "last_audio_input ?sA \<noteq> []"
    unfolding e(1) by simp_all
  have c1: "final_times (fst (snd (listen_print_loop ?rs ?s)))
      = map (\<lambda>t. t - bridging_offset ?s + STREAMING_LIMIT * restart_counter ?s) [1000, 2500]"
    using t unfolding e(2) by blast
  have c2: "sorted (final_times (fst (snd (listen_print_loop ?rs ?s))))"
    using t unfolding e(2) by simp
  have c3: "of_int (last (final_times [NewRequest 0, Final 3000 ''hello'']))
      \<le> (of_int (STREAMING_LIMIT * restart_counter ?sA - bridging_offset ?sB) :: rat)
         + (chunkDurationMs (length (last_audio_input ?sA)) + 1) / 2"
    using t m a b h by blast
  show ?thesis
    using c2 unfolding c1 using c3
    by (simp add: init_def STREAMING_LIMIT_def chunkDurationMs_def)
qed

text \<open>
  The claim as first worded fails at a restart. A sub-session of 100 chunks writes a final
  transcript at 8049 ms; the replay starts at chunk 80 and the new offset is 2000; a final
  result of the next sub-session at 30 ms is written with the global end time 8030.
\<close>

theorem monotone_counterexample:
  "sorted (final_end_times [single_result True 8 49000000 ''hello'']) \<and>
   sorted (final_end_times [single_result True 0 30000000 ''hi'']) \<and>
   main_loop
     [\<lparr>ticks = numbered_ticks 100 @ [one_tick 10001 ''z''],
       responses = [single_result True 8 49000000 ''hello'']\<rparr>,
      \<lparr>ticks = [one_tick 10100 ''b''], responses = [single_result True 0 30000000 ''hi'']\<rparr>]
     (init 0)
   = Inr (\<lparr>closed = False, start_time = 10001, restart_counter = 2, audio_input = [],
           last_audio_input = [Some ''b''], result_end_time = 0, is_final_end_time = 30,
           final_request_end_time = 30, bridging_offset = 2000,
           last_transcript_was_final = True, new_stream = True\<rparr>,
          [NewRequest 0, Final 8049 ''hello'', NewRequest 10000, Final 8030 ''hi''], []) \<and>
   final_times [NewRequest 0, Final 8049 ''hello'', NewRequest 10000, Final 8030 ''hi'']
   = [8049, 8030] \<and>
   \<not> sorted [8049, 8030 :: int]"
  by code_simp

end
